theory Spec2Isabelle
  imports Main "HOL-Library.Word" "HOL-Library.Multiset"
begin

section \<open>Data model\<close>

text \<open>
  Go's \<open>int\<close> (on the 64-bit targets the server is built for) and \<open>int64\<close> are 64-bit
  two's-complement integers: \<open>+\<close> wraps and \<open><\<close> compares the signed values.
\<close>

type_synonym go_int = "64 word"

text \<open>
  Modelled from the Go standard library's documentation of \<open>time.Time\<close>, whose declaration
  is outside the repository: an instant together with a location. The zero value is
  January 1, year 1, 00:00:00 UTC, and \<open>IsZero\<close> reports whether the instant is that one.
  \<open>time.Parse\<close> and \<open>Time.Format\<close> are parameters (\<open>timelib\<close>); \<open>Parse\<close> yields \<open>None\<close>
  where the library returns an error.
\<close>

record Time =
  sinceYearOne :: int
  zoneOffset :: int

definition zeroTime :: Time where
  "zeroTime = \<lparr>sinceYearOne = 0, zoneOffset = 0\<rparr>"

definition IsZero :: "Time \<Rightarrow> bool" where
  "IsZero t = (sinceYearOne t = 0)"

record timelib =
  Parse :: "string \<Rightarrow> string \<Rightarrow> Time option"
  Format :: "Time \<Rightarrow> string \<Rightarrow> string"

definition RFC1123Z :: string where
  "RFC1123Z = ''Mon, 02 Jan 2006 15:04:05 -0700''"

definition RFC1123 :: string where
  "RFC1123 = ''Mon, 02 Jan 2006 15:04:05 MST''"

record EmailMetadata =
  ID :: string
  ThreadID :: string
  From :: string
  To :: "string list"
  Subject :: string
  Date :: Time
  Snippet :: string
  LabelIDs :: "string list"
  SizeEstimate :: "64 word"

record EmailStats =
  FromCount :: "string \<rightharpoonup> go_int"
  ToCount :: "string \<rightharpoonup> go_int"
  FromSize :: "string \<rightharpoonup> 64 word"
  DateCount :: "string \<rightharpoonup> go_int"
  TotalEmails :: go_int

definition NewEmailStats :: EmailStats where
  "NewEmailStats = \<lparr>FromCount = Map.empty, ToCount = Map.empty, FromSize = Map.empty,
     DateCount = Map.empty, TotalEmails = 0\<rparr>"

text \<open>
  Modelled from the spec: the two operations of the mail provider's client library, whose
  declarations are outside the repository (section 6):
  \<open>listMessages(pageToken?, pageSize) \<rightarrow> {ids[], nextPageToken?}\<close> and
  \<open>getMessage(id, format=full) \<rightarrow> {id, threadId, labelIds[], snippet, sizeEstimate, headers[]}\<close>.
  A failing call returns \<open>Inl\<close>. An empty page token stands for no token.
\<close>

datatype error = RemoteError string | ProcessingInProgress | HeaderNotProvided | InvalidTokenFormat

record Header =
  Name :: string
  Value :: string

record Message =
  msg_Id :: string
  msg_ThreadId :: string
  msg_LabelIds :: "string list"
  msg_Snippet :: string
  msg_SizeEstimate :: "64 word"
  msg_Headers :: "Header list"

record ListResponse =
  Messages :: "string list"
  NextPageToken :: string

record service =
  ListMessages :: "string \<Rightarrow> error + ListResponse"
  GetMessage :: "string \<Rightarrow> error + Message"

record Token =
  AccessToken :: string
  TokenType :: string
  RefreshToken :: string

record InboxProcessor =
  token :: Token
  service :: service
  emails :: "EmailMetadata list"
  stats :: EmailStats
  pageToken :: string
  isProcessing :: bool

text \<open>\<open>NewInboxProcessor\<close>; building the remote service (\<open>gmail.NewService\<close>) is a parameter.\<close>

definition NewInboxProcessor :: "(Token \<Rightarrow> error + service) \<Rightarrow> Token \<Rightarrow> error + InboxProcessor" where
  "NewInboxProcessor newService tok =
     (case newService tok of
        Inl err \<Rightarrow> Inl err
      | Inr svc \<Rightarrow> Inr \<lparr>token = tok, service = svc, emails = [], stats = NewEmailStats,
                        pageToken = [], isProcessing = False\<rparr>)"

section \<open>Starting a run and reading its progress\<close>

text \<open>
  \<open>StartProcessing\<close> returns the error (if any), the processor after the call, and the
  goroutines it launched: \<open>go p.processInbox()\<close> is the one \<open>Go_processInbox\<close>.
\<close>

datatype goroutine = Go_processInbox

definition StartProcessing :: "InboxProcessor \<Rightarrow> error option \<times> InboxProcessor \<times> goroutine list" where
  "StartProcessing p =
     (if isProcessing p then (Some ProcessingInProgress, p, [])
      else (None, p\<lparr>isProcessing := True\<rparr>, [Go_processInbox]))"

definition GetStats :: "InboxProcessor \<Rightarrow> EmailStats" where
  "GetStats p = stats p"

definition GetProgress :: "InboxProcessor \<Rightarrow> go_int \<times> bool" where
  "GetProgress p = (TotalEmails (stats p), isProcessing p)"

section \<open>Header address extraction\<close>

text \<open>
  \<open>extractEmailAddress\<close> scans the header value twice. The first loop runs upwards from
  index 0 and stops at the first \<open><\<close>, setting \<open>start\<close> to the index after it; the second
  runs downwards from the last index and stops at the last \<open>>\<close>, setting \<open>end\<close> to its
  index. \<open>start\<close> keeps its initial value 0 and \<open>end\<close> its initial value \<open>len(header)\<close> when
  the loop finds nothing. Go strings are byte sequences, as HOL strings are.
\<close>

function findStart :: "string \<Rightarrow> nat \<Rightarrow> nat" where
  "findStart header i =
     (if i < length header
      then (if header ! i = CHR ''<'' then i + 1 else findStart header (i + 1))
      else 0)"
  by pat_completeness auto
termination
  by (relation "measure (\<lambda>(header, i). length header - i)") auto

declare findStart.simps [simp del]

function findEnd :: "string \<Rightarrow> int \<Rightarrow> nat" where
  "findEnd header i =
     (if i \<ge> 0
      then (if header ! nat i = CHR ''>'' then nat i else findEnd header (i - 1))
      else length header)"
  by pat_completeness auto
termination
  by (relation "measure (\<lambda>(header, i). nat (i + 1))") auto

declare findEnd.simps [simp del]

definition extractEmailAddress :: "string \<Rightarrow> string" where
  "extractEmailAddress header =
     (let start = findStart header 0;
          end = findEnd header (int (length header) - 1)
      in if start < end then take (end - start) (drop start header) else header)"

text \<open>
  The extraction as the specification words it: the part strictly between the first
  \<open><\<close> and the last \<open>>\<close> when both occur, and the trimmed value otherwise.
\<close>

definition isSpace :: "char \<Rightarrow> bool" where
  "isSpace c = (c = CHR '' '' \<or> c = CHR 0x09 \<or> c = CHR 0x0A \<or> c = CHR 0x0D)"

definition trimSpace :: "string \<Rightarrow> string" where
  "trimSpace s = rev (dropWhile isSpace (rev (dropWhile isSpace s)))"

definition spec_extractEmailAddress :: "string \<Rightarrow> string" where
  "spec_extractEmailAddress header =
     (if CHR ''<'' \<in> set header \<and> CHR ''>'' \<in> set header
      then (let i = length (takeWhile (\<lambda>c. c \<noteq> CHR ''<'') header);
                j = length header - Suc (length (takeWhile (\<lambda>c. c \<noteq> CHR ''>'') (rev header)))
            in take (j - Suc i) (drop (Suc i) header))
      else trimSpace header)"


section \<open>Metadata extraction\<close>

text \<open>
  The \<open>Date\<close> case of the header switch: \<open>time.RFC1123Z\<close> is tried first, and on failure the
  loop over \<open>formats\<close> takes the first layout that parses and breaks. When none parses the
  field keeps the value it had.
\<close>

definition formats :: "string list" where
  "formats = [RFC1123Z, RFC1123, ''Mon, 2 Jan 2006 15:04:05 -0700'',
              ''Mon, 2 Jan 2006 15:04:05 -0700 (MST)'']"

fun tryFormats :: "timelib \<Rightarrow> string list \<Rightarrow> string \<Rightarrow> Time \<Rightarrow> Time" where
  "tryFormats L [] v d = d"
| "tryFormats L (format # fs) v d =
     (case Parse L format v of Some t \<Rightarrow> t | None \<Rightarrow> tryFormats L fs v d)"

definition parseDateHeader :: "timelib \<Rightarrow> string \<Rightarrow> Time \<Rightarrow> Time" where
  "parseDateHeader L v d =
     (case Parse L RFC1123Z v of Some t \<Rightarrow> t | None \<Rightarrow> tryFormats L formats v d)"

definition applyHeader :: "timelib \<Rightarrow> EmailMetadata \<Rightarrow> Header \<Rightarrow> EmailMetadata" where
  "applyHeader L metadata header =
     (if Name header = ''From'' then metadata\<lparr>From := extractEmailAddress (Value header)\<rparr>
      else if Name header = ''To''
        then metadata\<lparr>To := To metadata @ [extractEmailAddress (Value header)]\<rparr>
      else if Name header = ''Subject'' then metadata\<lparr>Subject := Value header\<rparr>
      else if Name header = ''Date''
        then metadata\<lparr>Date := parseDateHeader L (Value header) (Date metadata)\<rparr>
      else metadata)"

fun extractHeaders :: "timelib \<Rightarrow> EmailMetadata \<Rightarrow> Header list \<Rightarrow> EmailMetadata" where
  "extractHeaders L metadata [] = metadata"
| "extractHeaders L metadata (header # hs) = extractHeaders L (applyHeader L metadata header) hs"

definition extractMetadata :: "timelib \<Rightarrow> Message \<Rightarrow> EmailMetadata" where
  "extractMetadata L msg =
     extractHeaders L
       \<lparr>ID = msg_Id msg, ThreadID = msg_ThreadId msg, From = [], To = [], Subject = [],
        Date = zeroTime, Snippet = msg_Snippet msg, LabelIDs = msg_LabelIds msg,
        SizeEstimate = msg_SizeEstimate msg\<rparr>
       (msg_Headers msg)"

section \<open>Statistics\<close>

text \<open>
  Reading a Go map at a missing key gives the zero value, so \<open>m[k] += d\<close> stores
  \<open>d\<close> for a new key.
\<close>

definition mapGet :: "(string \<rightharpoonup> 64 word) \<Rightarrow> string \<Rightarrow> 64 word" where
  "mapGet m k = (case m k of None \<Rightarrow> 0 | Some v \<Rightarrow> v)"

definition mapAdd :: "(string \<rightharpoonup> 64 word) \<Rightarrow> string \<Rightarrow> 64 word \<Rightarrow> (string \<rightharpoonup> 64 word)" where
  "mapAdd m k d = m(k \<mapsto> mapGet m k + d)"

fun countRecipients :: "(string \<rightharpoonup> go_int) \<Rightarrow> string list \<Rightarrow> (string \<rightharpoonup> go_int)" where
  "countRecipients m [] = m"
| "countRecipients m (to # tos) = countRecipients (mapAdd m to 1) tos"

text \<open>
  The section of \<open>processMessage\<close> that runs under \<open>p.stats.mu\<close> (``Update statistics''):
  the record operation of the statistics store.
\<close>

definition updateStatistics :: "timelib \<Rightarrow> EmailMetadata \<Rightarrow> EmailStats \<Rightarrow> EmailStats" where
  "updateStatistics L metadata st =
     (let st1 = st\<lparr>FromCount := mapAdd (FromCount st) (From metadata) 1\<rparr>;
          st2 = st1\<lparr>FromSize := mapAdd (FromSize st1) (From metadata) (SizeEstimate metadata)\<rparr>;
          st3 = st2\<lparr>ToCount := countRecipients (ToCount st2) (To metadata)\<rparr>
      in if \<not> IsZero (Date metadata)
         then st3\<lparr>DateCount := mapAdd (DateCount st3) (Format L (Date metadata) ''2006-01-02'') 1\<rparr>
         else st3)"

section \<open>The ingestion loop\<close>

definition processMessage :: "timelib \<Rightarrow> string \<Rightarrow> InboxProcessor \<Rightarrow> InboxProcessor" where
  "processMessage L messageID p =
     (case GetMessage (service p) messageID of
        Inl err \<Rightarrow> p
      | Inr msg \<Rightarrow>
          (let metadata = extractMetadata L msg;
               p1 = p\<lparr>emails := emails p @ [metadata]\<rparr>
           in p1\<lparr>stats := updateStatistics L metadata (stats p1)\<rparr>))"

text \<open>
  The units of one page, run here in listing order. Each unit appends to \<open>emails\<close> and
  updates the statistics in critical sections of its own, so a concurrent execution is a
  sequence of these sections in some order.
\<close>

fun processMessages :: "timelib \<Rightarrow> string list \<Rightarrow> InboxProcessor \<Rightarrow> InboxProcessor" where
  "processMessages L [] p = p"
| "processMessages L (messageID # ids) p = processMessages L ids (processMessage L messageID p)"

definition addTotal :: "nat \<Rightarrow> InboxProcessor \<Rightarrow> InboxProcessor" where
  "addTotal n p = p\<lparr>stats := (stats p)\<lparr>TotalEmails := TotalEmails (stats p) + of_nat n\<rparr>\<rparr>"

text \<open>
  One iteration of the \<open>for\<close> loop of \<open>processInbox\<close>: \<open>Inl\<close> is a \<open>break\<close>, \<open>Inr\<close> the
  state for the next iteration. \<open>reqs\<close> collects the page tokens of the listing requests
  issued so far, in order.
\<close>

definition loopBody ::
  "timelib \<Rightarrow> string \<Rightarrow> string list \<Rightarrow> InboxProcessor
     \<Rightarrow> (InboxProcessor \<times> string list) + (string \<times> string list \<times> InboxProcessor)" where
  "loopBody L pageTok reqs p =
     (case ListMessages (service p) pageTok of
        Inl err \<Rightarrow> Inl (p, reqs @ [pageTok])
      | Inr resp \<Rightarrow>
          (let p' = addTotal (length (Messages resp)) (processMessages L (Messages resp) p)
           in if NextPageToken resp = [] then Inl (p', reqs @ [pageTok])
              else Inr (NextPageToken resp, reqs @ [pageTok], p')))"

text \<open>
  The loop may run forever (a remote that always returns a next page token), so not
  returning is \<open>None\<close>.
\<close>

partial_function (option) processInboxLoop ::
  "timelib \<Rightarrow> string \<Rightarrow> string list \<Rightarrow> InboxProcessor \<Rightarrow> (InboxProcessor \<times> string list) option" where
  "processInboxLoop L pageTok reqs p =
     (case loopBody L pageTok reqs p of
        Inl done \<Rightarrow> Some done
      | Inr (pageTok', reqs', p') \<Rightarrow> processInboxLoop L pageTok' reqs' p')"

definition processInbox :: "timelib \<Rightarrow> InboxProcessor \<Rightarrow> (InboxProcessor \<times> string list) option" where
  "processInbox L p =
     (case processInboxLoop L [] [] p of
        None \<Rightarrow> None
      | Some (p', reqs) \<Rightarrow> Some (p'\<lparr>isProcessing := False\<rparr>, reqs))"

text \<open>
  The state of the loop after \<open>k\<close> iterations that each went on to the next page
  (\<open>None\<close> when one of them left the loop).
\<close>

fun loopIterations ::
  "timelib \<Rightarrow> nat \<Rightarrow> string \<times> string list \<times> InboxProcessor
     \<Rightarrow> (string \<times> string list \<times> InboxProcessor) option" where
  "loopIterations L 0 s = Some s"
| "loopIterations L (Suc k) (pageTok, reqs, p) =
     (case loopBody L pageTok reqs p of
        Inl done \<Rightarrow> None
      | Inr s' \<Rightarrow> loopIterations L k s')"

text \<open>The messages of a page whose fetch succeeds, in listing order.\<close>

fun fetched :: "service \<Rightarrow> string list \<Rightarrow> Message list" where
  "fetched svc [] = []"
| "fetched svc (messageID # ids) =
     (case GetMessage svc messageID of
        Inl err \<Rightarrow> fetched svc ids
      | Inr msg \<Rightarrow> msg # fetched svc ids)"

text \<open>
  The number of ids listed by the response to the listing request with a page token
  (0 when the request fails), and the processor an iteration of the loop leaves.
\<close>

definition listedCount :: "service \<Rightarrow> string \<Rightarrow> nat" where
  "listedCount svc pageTok =
     (case ListMessages svc pageTok of Inl err \<Rightarrow> 0 | Inr resp \<Rightarrow> length (Messages resp))"

definition processorAfter ::
  "(InboxProcessor \<times> string list) + (string \<times> string list \<times> InboxProcessor) \<Rightarrow> InboxProcessor" where
  "processorAfter r = (case r of Inl (p', reqs') \<Rightarrow> p' | Inr (pageTok', reqs', p') \<Rightarrow> p')"

section \<open>Top senders\<close>

record emailCount =
  Email :: string
  Count :: go_int
  Size :: "64 word"

function sortInner :: "nat \<Rightarrow> nat \<Rightarrow> emailCount list \<Rightarrow> emailCount list" where
  "sortInner i j senders =
     (if j < length senders
      then sortInner i (j + 1)
             (if sint (Count (senders ! i)) < sint (Count (senders ! j))
              then senders[i := senders ! j, j := senders ! i] else senders)
      else senders)"
  by pat_completeness auto
termination
  by (relation "measure (\<lambda>(i, j, senders). length senders - j)") auto

declare sortInner.simps [simp del]

function sortOuter :: "nat \<Rightarrow> emailCount list \<Rightarrow> emailCount list" where
  "sortOuter i senders =
     (if i < length senders then sortOuter (i + 1) (sortInner i (i + 1) senders) else senders)"
  by pat_completeness auto
termination
proof (relation "measure (\<lambda>(i, senders). length senders - i)")
  show "wf (measure (\<lambda>(i, senders). length senders - i))" by simp
next
  fix i :: nat and senders :: "emailCount list"
  assume lt: "i < length senders"
  have len: "length (sortInner a b s) = length s" for a b s
  proof (induction a b s rule: sortInner.induct)
    case (1 a b s)
    show ?case
    proof (cases "b < length s")
      case True
      have "length (sortInner a b s) = length (sortInner a (b + 1)
             (if sint (Count (s ! a)) < sint (Count (s ! b)) then s[a := s ! b, b := s ! a] else s))"
        using True by (subst sortInner.simps) simp
      also have "\<dots> = length (if sint (Count (s ! a)) < sint (Count (s ! b))
                            then s[a := s ! b, b := s ! a] else s)"
        using "1.IH" True by blast
      also have "\<dots> = length s" by simp
      finally show ?thesis .
    next
      case False
      then show ?thesis by (subst sortInner.simps) simp
    qed
  qed
  show "((i + 1, sortInner i (i + 1) senders), (i, senders))
          \<in> measure (\<lambda>(i, senders). length senders - i)"
    using lt by (simp add: len)
qed

declare sortOuter.simps [simp del]

text \<open>
  \<open>GetTopSenders\<close>. Go iterates a map in an unspecified order; \<open>order\<close> is the order in
  which the \<open>range\<close> loop visits the keys of \<open>FromCount\<close>. Slicing \<open>senders[:n]\<close> with a
  negative \<open>n\<close> panics.
\<close>

datatype panic = SliceBoundsOutOfRange

definition GetTopSenders :: "string list \<Rightarrow> InboxProcessor \<Rightarrow> int \<Rightarrow> panic + emailCount list" where
  "GetTopSenders order p n =
     (let senders = map (\<lambda>email. \<lparr>Email = email, Count = mapGet (FromCount (stats p)) email,
                                   Size = mapGet (FromSize (stats p)) email\<rparr>) order;
          senders = sortOuter 0 senders;
          n = (if n > int (length senders) then int (length senders) else n)
      in if n < 0 then Inl SliceBoundsOutOfRange else Inr (take (nat n) senders))"

section \<open>Registry and request handlers\<close>

text \<open>
  The registry maps a user id to a processor object. Each processor is registered under
  the one key it was created for, so the registry doubles as the store of the processors.
\<close>

type_synonym ProcessorRegistry = "string \<rightharpoonup> InboxProcessor"

definition Register :: "ProcessorRegistry \<Rightarrow> string \<Rightarrow> InboxProcessor \<Rightarrow> ProcessorRegistry" where
  "Register r userID processor = r(userID \<mapsto> processor)"

definition Get :: "ProcessorRegistry \<Rightarrow> string \<Rightarrow> InboxProcessor option" where
  "Get r userID = r userID"

definition Remove :: "ProcessorRegistry \<Rightarrow> string \<Rightarrow> ProcessorRegistry" where
  "Remove r userID = r(userID := None)"

text \<open>\<open>ParseToken\<close>; \<open>json.Unmarshal\<close> into an \<open>oauth2.Token\<close> is a parameter.\<close>

record request =
  Authorization :: string

definition ParseToken :: "(string \<Rightarrow> Token option) \<Rightarrow> request \<Rightarrow> error + Token" where
  "ParseToken unmarshal r =
     (let tokenStr = Authorization r
      in if tokenStr = [] then Inl HeaderNotProvided
         else (let tokenStr = (if length tokenStr > 7 \<and> take 7 tokenStr = ''Bearer ''
                               then drop 7 tokenStr else tokenStr)
               in case unmarshal tokenStr of
                    None \<Rightarrow> Inl InvalidTokenFormat
                  | Some tok \<Rightarrow> Inr tok))"

text \<open>The slice \<open>token.AccessToken[:10]\<close> panics when the string has fewer than 10 bytes.\<close>

definition userIDOf :: "Token \<Rightarrow> panic + string" where
  "userIDOf tok =
     (if length (AccessToken tok) < 10 then Inl SliceBoundsOutOfRange
      else Inr (take 10 (AccessToken tok)))"

datatype response =
    HttpError nat
  | ProgressJSON "go_int \<times> bool"
  | TopSendersJSON "emailCount list"
  | StatsJSON EmailStats

text \<open>
  \<open>HandleStartProcessingInbox\<close> returns the response, the registry after the request and
  the user ids whose \<open>processInbox\<close> goroutine the request launched, or the panic.
\<close>

definition HandleStartProcessingInbox ::
  "(string \<Rightarrow> Token option) \<Rightarrow> (Token \<Rightarrow> error + service) \<Rightarrow> ProcessorRegistry \<Rightarrow> request
     \<Rightarrow> panic + (response \<times> ProcessorRegistry \<times> string list)" where
  "HandleStartProcessingInbox unmarshal newService Registry r =
     (case ParseToken unmarshal r of
        Inl err \<Rightarrow> Inr (HttpError 401, Registry, [])
      | Inr tok \<Rightarrow>
          (case userIDOf tok of
             Inl pnc \<Rightarrow> Inl pnc
           | Inr userID \<Rightarrow>
               (case Get Registry userID of
                  Some processor \<Rightarrow> Inr (ProgressJSON (GetProgress processor), Registry, [])
                | None \<Rightarrow>
                    (case NewInboxProcessor newService tok of
                       Inl err \<Rightarrow> Inr (HttpError 500, Registry, [])
                     | Inr processor \<Rightarrow>
                         (case StartProcessing processor of
                            (Some err, processor', gs) \<Rightarrow>
                              Inr (HttpError 500, Register Registry userID processor',
                                   map (\<lambda>g. userID) gs)
                          | (None, processor', gs) \<Rightarrow>
                              Inr (ProgressJSON (GetProgress processor'),
                                   Register Registry userID processor',
                                   map (\<lambda>g. userID) gs))))))"

definition HandleGetInboxStatus ::
  "(string \<Rightarrow> Token option) \<Rightarrow> ProcessorRegistry \<Rightarrow> request \<Rightarrow> panic + response" where
  "HandleGetInboxStatus unmarshal Registry r =
     (case ParseToken unmarshal r of
        Inl err \<Rightarrow> Inr (HttpError 401)
      | Inr tok \<Rightarrow>
          (case userIDOf tok of
             Inl pnc \<Rightarrow> Inl pnc
           | Inr userID \<Rightarrow>
               (case Get Registry userID of
                  None \<Rightarrow> Inr (HttpError 404)
                | Some processor \<Rightarrow> Inr (ProgressJSON (GetProgress processor)))))"

definition HandleGetTopSenders ::
  "(string \<Rightarrow> Token option) \<Rightarrow> string list \<Rightarrow> ProcessorRegistry \<Rightarrow> request \<Rightarrow> panic + response" where
  "HandleGetTopSenders unmarshal order Registry r =
     (case ParseToken unmarshal r of
        Inl err \<Rightarrow> Inr (HttpError 401)
      | Inr tok \<Rightarrow>
          (case userIDOf tok of
             Inl pnc \<Rightarrow> Inl pnc
           | Inr userID \<Rightarrow>
               (case Get Registry userID of
                  None \<Rightarrow> Inr (HttpError 404)
                | Some processor \<Rightarrow>
                    (case GetTopSenders order processor 20 of
                       Inl pnc \<Rightarrow> Inl pnc
                     | Inr topSenders \<Rightarrow> Inr (TopSendersJSON topSenders)))))"

definition HandleGetEmailStats ::
  "(string \<Rightarrow> Token option) \<Rightarrow> ProcessorRegistry \<Rightarrow> request \<Rightarrow> panic + response" where
  "HandleGetEmailStats unmarshal Registry r =
     (case ParseToken unmarshal r of
        Inl err \<Rightarrow> Inr (HttpError 401)
      | Inr tok \<Rightarrow>
          (case userIDOf tok of
             Inl pnc \<Rightarrow> Inl pnc
           | Inr userID \<Rightarrow>
               (case Get Registry userID of
                  None \<Rightarrow> Inr (HttpError 404)
                | Some processor \<Rightarrow> Inr (StatsJSON (GetStats processor)))))"

section \<open>An example mailbox\<close>

text \<open>
  The scenario of the specification's testable properties: three messages on two pages,
  \<open>[m1, m2]\<close> with cursor \<open>p2\<close> and then \<open>[m3]\<close> without a cursor, where the fetch of \<open>m2\<close>
  fails. \<open>brokenService\<close> is the same mailbox with a second page that cannot be listed.
\<close>

definition exampleLib :: timelib where
  "exampleLib =
     \<lparr>Parse = (\<lambda>layout v.
         if layout = ''Mon, 2 Jan 2006 15:04:05 -0700'' \<and> v = ''Tue, 3 Jan 2006 10:00:00 +0000''
         then Some \<lparr>sinceYearOne = 63271879200, zoneOffset = 0\<rparr> else None),
      Format = (\<lambda>t layout. ''2006-01-03'')\<rparr>"

definition exampleMessage :: "string \<Rightarrow> string \<Rightarrow> string \<Rightarrow> Message" where
  "exampleMessage i sender date =
     \<lparr>msg_Id = i, msg_ThreadId = i, msg_LabelIds = [''INBOX''], msg_Snippet = ''hello'',
      msg_SizeEstimate = 100,
      msg_Headers = [\<lparr>Name = ''From'', Value = sender\<rparr>, \<lparr>Name = ''To'', Value = ''me@x.org''\<rparr>,
                     \<lparr>Name = ''Date'', Value = date\<rparr>]\<rparr>"

definition exampleService :: service where
  "exampleService =
     \<lparr>ListMessages = (\<lambda>pageTok.
         if pageTok = [] then Inr \<lparr>Messages = [''m1'', ''m2''], NextPageToken = ''p2''\<rparr>
         else if pageTok = ''p2'' then Inr \<lparr>Messages = [''m3''], NextPageToken = []\<rparr>
         else Inl (RemoteError ''unknown page'')),
      GetMessage = (\<lambda>i.
         if i = ''m1'' then Inr (exampleMessage ''m1'' ''Ann <a@b.com>'' ''Tue, 3 Jan 2006 10:00:00 +0000'')
         else if i = ''m3'' then Inr (exampleMessage ''m3'' ''a@b.com'' ''yesterday'')
         else Inl (RemoteError ''unavailable''))\<rparr>"

definition brokenService :: service where
  "brokenService =
     exampleService\<lparr>ListMessages := (\<lambda>pageTok.
         if pageTok = [] then Inr \<lparr>Messages = [''m1'', ''m2''], NextPageToken = ''p2''\<rparr>
         else Inl (RemoteError ''listing failed''))\<rparr>"

definition exampleToken :: Token where
  "exampleToken = \<lparr>AccessToken = ''ya29.a0AfH6SMB'', TokenType = ''Bearer'', RefreshToken = []\<rparr>"

definition exampleProcessor :: "service \<Rightarrow> InboxProcessor" where
  "exampleProcessor svc =
     \<lparr>token = exampleToken, service = svc, emails = [], stats = NewEmailStats,
      pageToken = [], isProcessing = True\<rparr>"

text \<open>
  A library and a mailbox for a message dated at the zero instant: the layout
  \<open>RFC1123Z\<close> parses \<open>Mon, 01 Jan 0001 00:00:00 +0000\<close> to January 1, year 1, 00:00:00 UTC.
\<close>

definition yearOneLib :: timelib where
  "yearOneLib =
     \<lparr>Parse = (\<lambda>layout v.
         if layout = RFC1123Z \<and> v = ''Mon, 01 Jan 0001 00:00:00 +0000''
         then Some \<lparr>sinceYearOne = 0, zoneOffset = 0\<rparr> else None),
      Format = (\<lambda>t layout. ''0001-01-01'')\<rparr>"

definition yearOneService :: service where
  "yearOneService =
     \<lparr>ListMessages = (\<lambda>pageTok. Inr \<lparr>Messages = [''y1''], NextPageToken = []\<rparr>),
      GetMessage = (\<lambda>i.
         Inr (exampleMessage i ''a@b.com'' ''Mon, 01 Jan 0001 00:00:00 +0000''))\<rparr>"

text \<open>A decoder that accepts two literal tokens, one of them with no access token.\<close>

definition exampleUnmarshal :: "string \<Rightarrow> Token option" where
  "exampleUnmarshal str =
     (if str = ''{}'' then Some \<lparr>AccessToken = [], TokenType = [], RefreshToken = []\<rparr>
      else if str = ''{access_token:ya29.a0AfH6SMB}'' then Some exampleToken
      else None)"

text \<open>A run that has recorded three messages of two senders.\<close>

definition exampleRecord :: "string \<Rightarrow> 64 word \<Rightarrow> EmailMetadata" where
  "exampleRecord sender sz =
     \<lparr>ID = ''m'', ThreadID = ''t'', From = sender, To = [''me@x.org''], Subject = ''hi'',
      Date = zeroTime, Snippet = ''hello'', LabelIDs = [''INBOX''], SizeEstimate = sz\<rparr>"

definition exampleRecords :: "EmailMetadata list" where
  "exampleRecords = [exampleRecord ''b@x.org'' 10, exampleRecord ''a@x.org'' 5,
                     exampleRecord ''b@x.org'' 7]"

definition exampleRun :: InboxProcessor where
  "exampleRun =
     (exampleProcessor exampleService)
       \<lparr>emails := exampleRecords,
        stats := (fold (updateStatistics exampleLib) exampleRecords NewEmailStats)
                   \<lparr>TotalEmails := 3\<rparr>\<rparr>"

section \<open>Properties of the address extraction\<close>

lemma findStart_closed:
  "findStart h i =
     (if CHR ''<'' \<in> set (drop i h)
      then i + Suc (length (takeWhile (\<lambda>c. c \<noteq> CHR ''<'') (drop i h))) else 0)"
proof (induction h i rule: findStart.induct)
  case (1 header i)
  show ?case
  proof (cases "i < length header")
    case True
    then have d: "drop i header = header ! i # drop (Suc i) header"
      by (simp add: Cons_nth_drop_Suc)
    show ?thesis
    proof (cases "header ! i = CHR ''<''")
      case True
      with \<open>i < length header\<close> d show ?thesis
        by (subst findStart.simps) simp
    next
      case False
      with \<open>i < length header\<close> d "1.IH" show ?thesis
        by (subst findStart.simps) simp
    qed
  next
    case False
    then show ?thesis by (subst findStart.simps) simp
  qed
qed


lemma last_index_snoc_hit:
  "Suc n - Suc (length (takeWhile (\<lambda>c. c \<noteq> x) (rev (ys @ [x])))) = n"
  by simp

lemma last_index_snoc_miss:
  assumes "y \<noteq> x" "length ys = n"
  shows "Suc n - Suc (length (takeWhile (\<lambda>c. c \<noteq> x) (rev (ys @ [y]))))
         = n - Suc (length (takeWhile (\<lambda>c. c \<noteq> x) (rev ys))) "
  using assms by simp

lemma findEnd_closed:
  "i < int (length h) \<Longrightarrow> findEnd h i =
     (if CHR ''>'' \<in> set (take (nat (i + 1)) h)
      then nat (i + 1) - Suc (length (takeWhile (\<lambda>c. c \<noteq> CHR ''>'') (rev (take (nat (i + 1)) h))))
      else length h)"
proof (induction h i rule: findEnd.induct)
  case (1 header i)
  show ?case
  proof (cases "i \<ge> 0")
    case True
    with "1.prems" have lt: "nat i < length header" by simp
    from True have n: "nat (i + 1) = Suc (nat i)" by simp
    have t: "take (Suc (nat i)) header = take (nat i) header @ [header ! nat i]"
      using lt by (simp add: take_Suc_conv_app_nth)
    have len: "length (take (nat i) header) = nat i" using lt by simp
    show ?thesis
    proof (cases "header ! nat i = CHR ''>''")
      case True
      have "findEnd header i = nat i"
        using \<open>i \<ge> 0\<close> True by (subst findEnd.simps) simp
      moreover have "CHR ''>'' \<in> set (take (Suc (nat i)) header)"
        using True t by simp
      moreover have "Suc (nat i) - Suc (length (takeWhile (\<lambda>c. c \<noteq> CHR ''>'')
                (rev (take (Suc (nat i)) header)))) = nat i"
        using True t last_index_snoc_hit[of "nat i" "CHR ''>''" "take (nat i) header"] by simp
      ultimately show ?thesis using n by simp
    next
      case False
      have "i - 1 < int (length header)" using "1.prems" by simp
      with "1.IH" True False have ih: "findEnd header (i - 1) =
         (if CHR ''>'' \<in> set (take (nat (i - 1 + 1)) header)
          then nat (i - 1 + 1) - Suc (length (takeWhile (\<lambda>c. c \<noteq> CHR ''>'') (rev (take (nat (i - 1 + 1)) header))))
          else length header)" by blast
      have step: "findEnd header i = findEnd header (i - 1)"
        using \<open>i \<ge> 0\<close> False by (subst findEnd.simps) simp
      have mem: "CHR ''>'' \<in> set (take (Suc (nat i)) header) \<longleftrightarrow> CHR ''>'' \<in> set (take (nat i) header)"
        using False t by auto
      have idx: "Suc (nat i) - Suc (length (takeWhile (\<lambda>c. c \<noteq> CHR ''>'')
                (rev (take (Suc (nat i)) header))))
            = nat i - Suc (length (takeWhile (\<lambda>c. c \<noteq> CHR ''>'') (rev (take (nat i) header))))"
        using last_index_snoc_miss[OF False len] t by simp
      show ?thesis using step ih mem idx n by simp
    qed
  next
    case False
    then show ?thesis by (subst findEnd.simps) simp
  qed
qed

lemma extractEmailAddress_closed_form:
  "extractEmailAddress h =
     (let s = (if CHR ''<'' \<in> set h then Suc (length (takeWhile (\<lambda>c. c \<noteq> CHR ''<'') h)) else 0);
          e = (if CHR ''>'' \<in> set h
               then length h - Suc (length (takeWhile (\<lambda>c. c \<noteq> CHR ''>'') (rev h)))
               else length h)
      in if s < e then take (e - s) (drop s h) else h)"
proof -
  have e: "findEnd h (int (length h) - 1) = (if CHR ''>'' \<in> set h
               then length h - Suc (length (takeWhile (\<lambda>c. c \<noteq> CHR ''>'') (rev h)))
               else length h)"
    using findEnd_closed[of "int (length h) - 1" h] by simp
  have s: "findStart h 0 = (if CHR ''<'' \<in> set h then Suc (length (takeWhile (\<lambda>c. c \<noteq> CHR ''<'') h)) else 0)"
    using findStart_closed[of h 0] by simp
  show ?thesis
    unfolding extractEmailAddress_def e s ..
qed


lemma takeWhile_neq_prefix: "x \<notin> set pre \<Longrightarrow> takeWhile (\<lambda>c. c \<noteq> x) (pre @ x # rest) = pre"
  by (induction pre) auto

text \<open>
  C4 (as amended). The start of the result is just after the first \<open><\<close>, or the beginning
  of the value when it has none; its end is just before the last \<open>>\<close>, or the end of the
  value when it has none; the two are found independently. The result is the part of
  the value from the start up to the end when the start lies before the end, and the
  entire value, unchanged and untrimmed, otherwise. So a value with neither bracket is
  returned unchanged, a value with a non-empty part between its first \<open><\<close> and its last
  \<open>>\<close> yields that part, a value with only a \<open><\<close> yields what follows the first one, a
  value with only a \<open>>\<close> yields what precedes the last one, and a value whose range is
  empty or inverted (\<open><>\<close>, \<open>Name <\<close>, \<open>>x\<close>, \<open>a>b<c\<close>) is returned whole.
\<close>

theorem extractEmailAddress_brackets:
  "extractEmailAddress v =
     (let s = (if CHR ''<'' \<in> set v then Suc (length (takeWhile (\<lambda>c. c \<noteq> CHR ''<'') v)) else 0);
          e = (if CHR ''>'' \<in> set v
               then length v - Suc (length (takeWhile (\<lambda>c. c \<noteq> CHR ''>'') (rev v)))
               else length v)
      in if s < e then take (e - s) (drop s v) else v) \<and>
   (CHR ''<'' \<notin> set h \<and> CHR ''>'' \<notin> set h \<longrightarrow> extractEmailAddress h = h) \<and>
   (CHR ''<'' \<notin> set pre \<and> CHR ''>'' \<notin> set post \<and> mid \<noteq> [] \<longrightarrow>
      extractEmailAddress (pre @ CHR ''<'' # mid @ CHR ''>'' # post) = mid) \<and>
   (CHR ''<'' \<notin> set pre \<and> CHR ''>'' \<notin> set pre \<and> CHR ''>'' \<notin> set rest \<and> rest \<noteq> [] \<longrightarrow>
      extractEmailAddress (pre @ CHR ''<'' # rest) = rest) \<and>
   (CHR ''>'' \<notin> set post \<and> CHR ''<'' \<notin> set post \<and> CHR ''<'' \<notin> set front \<and> front \<noteq> [] \<longrightarrow>
      extractEmailAddress (front @ CHR ''>'' # post) = front)"
proof (intro conjI impI)
  show "extractEmailAddress v =
     (let s = (if CHR ''<'' \<in> set v then Suc (length (takeWhile (\<lambda>c. c \<noteq> CHR ''<'') v)) else 0);
          e = (if CHR ''>'' \<in> set v
               then length v - Suc (length (takeWhile (\<lambda>c. c \<noteq> CHR ''>'') (rev v)))
               else length v)
      in if s < e then take (e - s) (drop s v) else v)"
    by (rule extractEmailAddress_closed_form)
next
  assume "CHR ''<'' \<notin> set h \<and> CHR ''>'' \<notin> set h"
  then show "extractEmailAddress h = h"
    by (simp add: extractEmailAddress_closed_form)
next
  assume a: "CHR ''<'' \<notin> set pre \<and> CHR ''>'' \<notin> set post \<and> mid \<noteq> []"
  let ?h = "pre @ CHR ''<'' # mid @ CHR ''>'' # post"
  have s: "takeWhile (\<lambda>c. c \<noteq> CHR ''<'') ?h = pre"
    using a by (simp add: takeWhile_neq_prefix)
  have "rev ?h = rev post @ CHR ''>'' # (rev mid @ CHR ''<'' # rev pre)" by simp
  then have e: "takeWhile (\<lambda>c. c \<noteq> CHR ''>'') (rev ?h) = rev post"
    using a takeWhile_neq_prefix[of "CHR ''>''" "rev post"] by simp
  have m1: "CHR ''<'' \<in> set ?h" and m2: "CHR ''>'' \<in> set ?h" by simp_all
  have "extractEmailAddress ?h =
          (if Suc (length pre) < length ?h - Suc (length post)
           then take (length ?h - Suc (length post) - Suc (length pre)) (drop (Suc (length pre)) ?h)
           else ?h)"
    unfolding extractEmailAddress_closed_form[of ?h] Let_def s e using m1 m2 by simp
  also have "\<dots> = mid" using a by simp
  finally show "extractEmailAddress ?h = mid" .
next
  assume a: "CHR ''<'' \<notin> set pre \<and> CHR ''>'' \<notin> set pre \<and> CHR ''>'' \<notin> set rest \<and> rest \<noteq> []"
  let ?h = "pre @ CHR ''<'' # rest"
  have s: "takeWhile (\<lambda>c. c \<noteq> CHR ''<'') ?h = pre"
    using a by (simp add: takeWhile_neq_prefix)
  have m1: "CHR ''<'' \<in> set ?h" and m2: "CHR ''>'' \<notin> set ?h" using a by simp_all
  have "extractEmailAddress ?h =
          (if Suc (length pre) < length ?h then take (length ?h - Suc (length pre)) (drop (Suc (length pre)) ?h)
           else ?h)"
    unfolding extractEmailAddress_closed_form[of ?h] Let_def s using m1 m2 by simp
  also have "\<dots> = rest" using a by simp
  finally show "extractEmailAddress ?h = rest" .
next
  assume a: "CHR ''>'' \<notin> set post \<and> CHR ''<'' \<notin> set post \<and> CHR ''<'' \<notin> set front \<and> front \<noteq> []"
  let ?h = "front @ CHR ''>'' # post"
  have "rev ?h = rev post @ CHR ''>'' # rev front" by simp
  then have e: "takeWhile (\<lambda>c. c \<noteq> CHR ''>'') (rev ?h) = rev post"
    using a takeWhile_neq_prefix[of "CHR ''>''" "rev post"] by simp
  have m1: "CHR ''<'' \<notin> set ?h" and m2: "CHR ''>'' \<in> set ?h" using a by simp_all
  have "extractEmailAddress ?h =
          (if 0 < length ?h - Suc (length post) then take (length ?h - Suc (length post)) ?h else ?h)"
    unfolding extractEmailAddress_closed_form[of ?h] Let_def e using m1 m2 by simp
  also have "\<dots> = front" using a by simp
  finally show "extractEmailAddress ?h = front" .
qed

theorem extractEmailAddress_brackets_witness:
  "extractEmailAddress ''a@b.com'' = ''a@b.com'' \<and>
   extractEmailAddress ''Name <a@b.com>'' = ''a@b.com'' \<and>
   extractEmailAddress ''a<b'' = ''b'' \<and>
   extractEmailAddress ''a>b'' = ''a'' \<and>
   extractEmailAddress ''<>'' = ''<>'' \<and>
   extractEmailAddress ''Name <'' = ''Name <'' \<and>
   extractEmailAddress ''>x'' = ''>x'' \<and>
   extractEmailAddress ''a>b<c'' = ''a>b<c''"
  using extractEmailAddress_brackets[where h = "''a@b.com''" and pre = "''Name ''" and post = "[]"
          and mid = "''a@b.com''" and rest = "''b''" and front = "''a''" and v = "''<>''"]
        extractEmailAddress_brackets[where h = "''a@b.com''" and pre = "''a''" and post = "''b''"
          and mid = "''x''" and rest = "''b''" and front = "''a''" and v = "''Name <''"]
        extractEmailAddress_brackets[where h = "''a@b.com''" and pre = "''a''" and post = "''b''"
          and mid = "''x''" and rest = "''b''" and front = "''a''" and v = "''>x''"]
        extractEmailAddress_brackets[where h = "''a@b.com''" and pre = "''a''" and post = "''b''"
          and mid = "''x''" and rest = "''b''" and front = "''a''" and v = "''a>b<c''"]
  by simp

theorem extractEmailAddress_spec_counterexample:
  "extractEmailAddress ''a<b'' = ''b'' \<and> spec_extractEmailAddress ''a<b'' = ''a<b'' \<and>
   extractEmailAddress '' a@b.com'' = '' a@b.com'' \<and> spec_extractEmailAddress '' a@b.com'' = ''a@b.com''"
  by (simp add: extractEmailAddress_closed_form spec_extractEmailAddress_def trimSpace_def isSpace_def)

section \<open>Properties of starting a run and of the request handlers\<close>

lemma GetTopSenders_20_no_panic: "\<exists>topSenders. GetTopSenders order p 20 = Inr topSenders"
  by (simp add: GetTopSenders_def Let_def)

text \<open>
  C2. \<open>StartProcessing\<close> returns the error exactly when the running flag is set, and then
  changes nothing and launches nothing; otherwise it sets the flag, launches the one
  \<open>processInbox\<close> goroutine and returns no error. At the handler, the first start request
  of a user registers a processor, starts it and reports its progress; a start request
  that finds the registered processor (in any later state \<open>running\<close> of its run) reports
  that processor's progress, leaves the registry and the processor as they are and
  launches nothing, so no message is processed a second time on its account.
\<close>

theorem StartProcessing_at_most_one_run:
  "(fst (StartProcessing p) = Some ProcessingInProgress \<longleftrightarrow> isProcessing p)
   \<and> (fst (StartProcessing p) = None \<longleftrightarrow> \<not> isProcessing p)
   \<and> (\<not> isProcessing p \<longrightarrow>
        StartProcessing p = (None, p\<lparr>isProcessing := True\<rparr>, [Go_processInbox]))
   \<and> (isProcessing p \<longrightarrow> StartProcessing p = (Some ProcessingInProgress, p, []))
   \<and> (ParseToken unmarshal r = Inr tok \<and> userIDOf tok = Inr userID \<longrightarrow>
        (Registry userID = None \<and> newService tok = Inr svc \<longrightarrow>
           (let started = \<lparr>token = tok, service = svc, emails = [], stats = NewEmailStats,
                            pageToken = [], isProcessing = True\<rparr>
            in HandleStartProcessingInbox unmarshal newService Registry r
                 = Inr (ProgressJSON (0, True), Registry(userID \<mapsto> started), [userID])
             \<and> HandleStartProcessingInbox unmarshal newService (Registry(userID \<mapsto> started)) r
                 = Inr (ProgressJSON (0, True), Registry(userID \<mapsto> started), [])))
        \<and> (Registry userID = Some running \<and> isProcessing running \<longrightarrow>
             HandleStartProcessingInbox unmarshal newService Registry r
               = Inr (ProgressJSON (TotalEmails (stats running), True), Registry, [])))"
  by (auto simp: StartProcessing_def HandleStartProcessingInbox_def NewInboxProcessor_def
        Get_def Register_def GetProgress_def NewEmailStats_def Let_def)

theorem StartProcessing_at_most_one_run_witness:
  "StartProcessing (exampleProcessor exampleService)
     = (Some ProcessingInProgress, exampleProcessor exampleService, [])
   \<and> StartProcessing ((exampleProcessor exampleService)\<lparr>isProcessing := False\<rparr>)
     = (None, exampleProcessor exampleService, [Go_processInbox])
   \<and> HandleStartProcessingInbox exampleUnmarshal (\<lambda>tok. Inr exampleService) Map.empty
        \<lparr>Authorization = ''Bearer {access_token:ya29.a0AfH6SMB}''\<rparr>
     = Inr (ProgressJSON (0, True), [''ya29.a0AfH'' \<mapsto> exampleProcessor exampleService],
            [''ya29.a0AfH''])
   \<and> HandleStartProcessingInbox exampleUnmarshal (\<lambda>tok. Inr exampleService)
        [''ya29.a0AfH'' \<mapsto> exampleProcessor exampleService]
        \<lparr>Authorization = ''Bearer {access_token:ya29.a0AfH6SMB}''\<rparr>
     = Inr (ProgressJSON (0, True), [''ya29.a0AfH'' \<mapsto> exampleProcessor exampleService], [])"
proof -
  let ?r = "\<lparr>Authorization = ''Bearer {access_token:ya29.a0AfH6SMB}''\<rparr>"
  have pt: "ParseToken exampleUnmarshal ?r = Inr exampleToken"
    by (simp add: ParseToken_def exampleUnmarshal_def)
  have uid: "userIDOf exampleToken = Inr ''ya29.a0AfH''"
    by (simp add: userIDOf_def exampleToken_def)
  have run: "isProcessing (exampleProcessor exampleService)"
    by (simp add: exampleProcessor_def)
  have idle: "\<not> isProcessing ((exampleProcessor exampleService)\<lparr>isProcessing := False\<rparr>)"
    by simp
  have tot: "TotalEmails (stats (exampleProcessor exampleService)) = 0"
    by (simp add: exampleProcessor_def NewEmailStats_def)
  have ex: "exampleProcessor exampleService =
      \<lparr>token = exampleToken, service = exampleService, emails = [], stats = NewEmailStats,
       pageToken = [], isProcessing = True\<rparr>"
    by (simp add: exampleProcessor_def)
  have reset: "(exampleProcessor exampleService)\<lparr>isProcessing := False, isProcessing := True\<rparr>
      = exampleProcessor exampleService"
    by (simp add: exampleProcessor_def)
  note a = StartProcessing_at_most_one_run[where p = "exampleProcessor exampleService"
      and unmarshal = exampleUnmarshal
      and r = "\<lparr>Authorization = ''Bearer {access_token:ya29.a0AfH6SMB}''\<rparr>" and tok = exampleToken
      and userID = "''ya29.a0AfH''" and Registry = Map.empty
      and newService = "\<lambda>tok. Inr exampleService" and svc = exampleService
      and running = "exampleProcessor exampleService"]
  note b = StartProcessing_at_most_one_run[where
      p = "(exampleProcessor exampleService)\<lparr>isProcessing := False\<rparr>"
      and unmarshal = exampleUnmarshal
      and r = "\<lparr>Authorization = ''Bearer {access_token:ya29.a0AfH6SMB}''\<rparr>" and tok = exampleToken
      and userID = "''ya29.a0AfH''"
      and Registry = "[''ya29.a0AfH'' \<mapsto> exampleProcessor exampleService]"
      and newService = "\<lambda>tok. Inr exampleService" and svc = exampleService
      and running = "exampleProcessor exampleService"]
  show ?thesis
    using a b pt uid run idle tot reset by (simp add: ex[symmetric] Let_def)
qed

text \<open>
  C10. Each of the four handlers derives the user id as \<open>token.AccessToken[:10]\<close> as soon
  as the token has parsed. With an access token of fewer than 10 bytes each of them
  panics; with one of at least 10 bytes the user id is its first 10 bytes, none of them
  panics, and the registry is looked up under that id.
\<close>

theorem handlers_userID_slice:
  assumes "ParseToken unmarshal r = Inr tok"
  shows "(length (AccessToken tok) < 10 \<longrightarrow>
            HandleStartProcessingInbox unmarshal newService Registry r = Inl SliceBoundsOutOfRange
          \<and> HandleGetInboxStatus unmarshal Registry r = Inl SliceBoundsOutOfRange
          \<and> HandleGetTopSenders unmarshal order Registry r = Inl SliceBoundsOutOfRange
          \<and> HandleGetEmailStats unmarshal Registry r = Inl SliceBoundsOutOfRange)
       \<and> (10 \<le> length (AccessToken tok) \<longrightarrow>
            userIDOf tok = Inr (take 10 (AccessToken tok))
          \<and> (\<exists>out. HandleStartProcessingInbox unmarshal newService Registry r = Inr out)
          \<and> HandleGetInboxStatus unmarshal Registry r =
              (case Registry (take 10 (AccessToken tok)) of
                 None \<Rightarrow> Inr (HttpError 404)
               | Some processor \<Rightarrow> Inr (ProgressJSON (GetProgress processor)))
          \<and> (\<exists>out. HandleGetTopSenders unmarshal order Registry r = Inr out)
          \<and> HandleGetEmailStats unmarshal Registry r =
              (case Registry (take 10 (AccessToken tok)) of
                 None \<Rightarrow> Inr (HttpError 404)
               | Some processor \<Rightarrow> Inr (StatsJSON (GetStats processor))))"
proof (intro conjI impI)
  assume short: "length (AccessToken tok) < 10"
  then have u: "userIDOf tok = Inl SliceBoundsOutOfRange" by (simp add: userIDOf_def)
  show "HandleStartProcessingInbox unmarshal newService Registry r = Inl SliceBoundsOutOfRange"
    by (simp add: HandleStartProcessingInbox_def assms u)
  show "HandleGetInboxStatus unmarshal Registry r = Inl SliceBoundsOutOfRange"
    by (simp add: HandleGetInboxStatus_def assms u)
  show "HandleGetTopSenders unmarshal order Registry r = Inl SliceBoundsOutOfRange"
    by (simp add: HandleGetTopSenders_def assms u)
  show "HandleGetEmailStats unmarshal Registry r = Inl SliceBoundsOutOfRange"
    by (simp add: HandleGetEmailStats_def assms u)
next
  assume long: "10 \<le> length (AccessToken tok)"
  then show u: "userIDOf tok = Inr (take 10 (AccessToken tok))" by (simp add: userIDOf_def)
  show "\<exists>out. HandleStartProcessingInbox unmarshal newService Registry r = Inr out"
    by (simp add: HandleStartProcessingInbox_def assms u StartProcessing_def NewInboxProcessor_def
          split: option.split sum.split)
  show "HandleGetInboxStatus unmarshal Registry r =
              (case Registry (take 10 (AccessToken tok)) of
                 None \<Rightarrow> Inr (HttpError 404)
               | Some processor \<Rightarrow> Inr (ProgressJSON (GetProgress processor)))"
    by (simp add: HandleGetInboxStatus_def assms u Get_def)
  show "\<exists>out. HandleGetTopSenders unmarshal order Registry r = Inr out"
  proof (cases "Registry (take 10 (AccessToken tok))")
    case None
    then show ?thesis by (simp add: HandleGetTopSenders_def assms u Get_def)
  next
    case (Some processor)
    obtain topSenders where "GetTopSenders order processor 20 = Inr topSenders"
      using GetTopSenders_20_no_panic by blast
    with Some show ?thesis by (simp add: HandleGetTopSenders_def assms u Get_def)
  qed
  show "HandleGetEmailStats unmarshal Registry r =
              (case Registry (take 10 (AccessToken tok)) of
                 None \<Rightarrow> Inr (HttpError 404)
               | Some processor \<Rightarrow> Inr (StatsJSON (GetStats processor)))"
    by (simp add: HandleGetEmailStats_def assms u Get_def)
qed

theorem handlers_userID_slice_witness:
  "HandleStartProcessingInbox exampleUnmarshal (\<lambda>tok. Inr exampleService) Map.empty
      \<lparr>Authorization = ''Bearer {}''\<rparr> = Inl SliceBoundsOutOfRange
   \<and> HandleGetInboxStatus exampleUnmarshal Map.empty \<lparr>Authorization = ''Bearer {}''\<rparr>
       = Inl SliceBoundsOutOfRange
   \<and> HandleGetTopSenders exampleUnmarshal [] Map.empty \<lparr>Authorization = ''Bearer {}''\<rparr>
       = Inl SliceBoundsOutOfRange
   \<and> HandleGetEmailStats exampleUnmarshal Map.empty \<lparr>Authorization = ''Bearer {}''\<rparr>
       = Inl SliceBoundsOutOfRange
   \<and> userIDOf exampleToken = Inr ''ya29.a0AfH''
   \<and> HandleGetInboxStatus exampleUnmarshal Map.empty
        \<lparr>Authorization = ''{access_token:ya29.a0AfH6SMB}''\<rparr> = Inr (HttpError 404)"
proof -
  have p1: "ParseToken exampleUnmarshal \<lparr>Authorization = ''Bearer {}''\<rparr>
              = Inr \<lparr>AccessToken = [], TokenType = [], RefreshToken = []\<rparr>"
    by (simp add: ParseToken_def exampleUnmarshal_def)
  have p2: "ParseToken exampleUnmarshal \<lparr>Authorization = ''{access_token:ya29.a0AfH6SMB}''\<rparr>
              = Inr exampleToken"
    by (simp add: ParseToken_def exampleUnmarshal_def)
  have t: "take 10 (AccessToken exampleToken) = ''ya29.a0AfH''" "length (AccessToken exampleToken) = 14"
    by (simp_all add: exampleToken_def)
  show ?thesis
    using handlers_userID_slice[OF p1, of "\<lambda>tok. Inr exampleService" Map.empty "[]"]
          handlers_userID_slice[OF p2, of "\<lambda>tok. Inr exampleService" Map.empty "[]"] t
    by simp
qed


section \<open>Properties of the ingestion loop\<close>

lemma service_processMessage [simp]: "service (processMessage L messageID p) = service p"
  by (simp add: processMessage_def Let_def split: sum.split)

lemma service_processMessages [simp]: "service (processMessages L ids p) = service p"
  by (induction ids arbitrary: p) simp_all

lemma isProcessing_processMessage [simp]:
  "isProcessing (processMessage L messageID p) = isProcessing p"
  by (simp add: processMessage_def Let_def split: sum.split)

lemma isProcessing_processMessages [simp]:
  "isProcessing (processMessages L ids p) = isProcessing p"
  by (induction ids arbitrary: p) simp_all

lemma processMessages_append:
  "processMessages L (xs @ ys) p = processMessages L ys (processMessages L xs p)"
  by (induction xs arbitrary: p) simp_all

lemma processMessage_failed:
  "GetMessage (service p) messageID = Inl err \<Longrightarrow> processMessage L messageID p = p"
  by (simp add: processMessage_def)

lemma loopIterations_loop:
  "loopIterations L k (pageTok, reqs, p) = Some (pageTok', reqs', p') \<Longrightarrow>
   processInboxLoop L pageTok reqs p = processInboxLoop L pageTok' reqs' p'"
proof (induction k arbitrary: pageTok reqs p)
  case 0
  then show ?case by simp
next
  case (Suc k)
  from Suc.prems obtain s where b: "loopBody L pageTok reqs p = Inr s"
    and it: "loopIterations L k s = Some (pageTok', reqs', p')"
    by (auto split: sum.splits)
  obtain t r q where s: "s = (t, r, q)" by (cases s) auto
  have "processInboxLoop L pageTok reqs p = processInboxLoop L t r q"
    by (subst processInboxLoop.simps) (simp add: b s)
  also have "\<dots> = processInboxLoop L pageTok' reqs' p'"
    using Suc.IH it s by simp
  finally show ?case .
qed

text \<open>
  C6. Let the loop of a run started on \<open>p0\<close> have reached, after any number \<open>k\<close> of pages,
  the state with page token \<open>pageTok\<close>, requests \<open>reqs\<close> and processor \<open>p\<close>. If the listing
  request made there fails, \<open>processInbox\<close> returns: the failing request is the last one
  issued (no further page, no retry), the running flag is false, and the statistics and
  the collected records are those held before the failing request.
\<close>

theorem processInbox_listing_failure:
  assumes "loopIterations L k ([], [], p0) = Some (pageTok, reqs, p)"
    and "ListMessages (service p) pageTok = Inl err"
  shows "processInbox L p0 = Some (p\<lparr>isProcessing := False\<rparr>, reqs @ [pageTok])
       \<and> (case processInbox L p0 of
             None \<Rightarrow> False
           | Some (p', reqs') \<Rightarrow>
               \<not> isProcessing p' \<and> stats p' = stats p \<and> emails p' = emails p
               \<and> reqs' = reqs @ [pageTok])"
proof -
  have "loopBody L pageTok reqs p = Inl (p, reqs @ [pageTok])"
    using assms(2) by (simp add: loopBody_def)
  then have "processInboxLoop L pageTok reqs p = Some (p, reqs @ [pageTok])"
    by (subst processInboxLoop.simps) simp
  with loopIterations_loop[OF assms(1)]
  have "processInboxLoop L [] [] p0 = Some (p, reqs @ [pageTok])" by simp
  then have "processInbox L p0 = Some (p\<lparr>isProcessing := False\<rparr>, reqs @ [pageTok])"
    by (simp add: processInbox_def)
  then show ?thesis by simp
qed

text \<open>
  C7. If the fetch of a message fails, \<open>processMessage\<close> returns the processor as it was:
  no record is appended and no statistic changes. The other messages of the page are
  processed as if the failed one had not been listed, and the loop goes on (or ends) as
  the page's token says; nothing of the failure is in the loop's result.
\<close>

theorem processInbox_listing_failure_witness:
  "processInbox exampleLib (exampleProcessor brokenService) =
     Some ((addTotal 2 (processMessages exampleLib [''m1'', ''m2''] (exampleProcessor brokenService)))
             \<lparr>isProcessing := False\<rparr>, [[], ''p2''])"
proof -
  let ?p0 = "exampleProcessor brokenService"
  let ?p1 = "addTotal 2 (processMessages exampleLib [''m1'', ''m2''] ?p0)"
  have s0: "service ?p0 = brokenService" by (simp add: exampleProcessor_def)
  have s1: "service ?p1 = brokenService" by (simp add: addTotal_def s0)
  have l: "ListMessages (service ?p0) [] = Inr \<lparr>Messages = [''m1'', ''m2''], NextPageToken = ''p2''\<rparr>"
    unfolding s0 by (simp add: brokenService_def exampleService_def)
  have it: "loopIterations exampleLib (Suc 0) ([], [], ?p0) = Some (''p2'', [[]], ?p1)"
    by (simp add: loopBody_def l numeral_2_eq_2)
  have f: "ListMessages (service ?p1) ''p2'' = Inl (RemoteError ''listing failed'')"
    unfolding s1 by (simp add: brokenService_def exampleService_def)
  show ?thesis
    using processInbox_listing_failure[OF it f] by simp
qed

theorem processMessage_fetch_failure_skipped:
  assumes "GetMessage (service p) messageID = Inl err"
  shows "processMessage L messageID p = p
       \<and> processMessages L (before @ messageID # after) p = processMessages L (before @ after) p
       \<and> (\<forall>resp. ListMessages (service p) pageTok = Inr resp
                  \<and> Messages resp = before @ messageID # after \<longrightarrow>
            loopBody L pageTok reqs p =
              (let p' = addTotal (length (Messages resp)) (processMessages L (before @ after) p)
               in if NextPageToken resp = [] then Inl (p', reqs @ [pageTok])
                  else Inr (NextPageToken resp, reqs @ [pageTok], p')))"
proof -
  have one: "processMessage L messageID q = q" if "service q = service p" for q
    using assms that by (simp add: processMessage_def)
  have page: "processMessages L (before @ messageID # after) p = processMessages L (before @ after) p"
    by (simp add: processMessages_append one)
  show ?thesis
    using one[of p] page by (auto simp: loopBody_def Let_def)
qed

theorem processMessage_fetch_failure_skipped_witness:
  "processMessage exampleLib ''m2'' (exampleProcessor exampleService) = exampleProcessor exampleService
   \<and> processMessages exampleLib [''m1'', ''m2''] (exampleProcessor exampleService)
       = processMessages exampleLib [''m1''] (exampleProcessor exampleService)
   \<and> loopBody exampleLib [] [] (exampleProcessor exampleService)
       = Inr (''p2'', [[]],
              addTotal 2 (processMessages exampleLib [''m1''] (exampleProcessor exampleService)))"
proof -
  let ?p0 = "exampleProcessor exampleService"
  have s0: "service ?p0 = exampleService" by (simp add: exampleProcessor_def)
  have f: "GetMessage (service ?p0) ''m2'' = Inl (RemoteError ''unavailable'')"
    unfolding s0 by (simp add: exampleService_def)
  have l: "ListMessages (service ?p0) [] = Inr \<lparr>Messages = [''m1'', ''m2''], NextPageToken = ''p2''\<rparr>"
    unfolding s0 by (simp add: exampleService_def)
  show ?thesis
    using processMessage_fetch_failure_skipped[OF f, of exampleLib "[''m1'']" "[]" "[]" "[]"] l
    by (simp add: numeral_2_eq_2)
qed

text \<open>
  C8. Let the loop of a run started on \<open>p0\<close> have reached, after any number \<open>k\<close> of pages,
  the state with page token \<open>pageTok\<close>, requests \<open>reqs\<close> and processor \<open>p\<close>. If the listing
  request made there returns a page with an empty next page token, \<open>processInbox\<close>
  returns: the units of that page have been processed and counted, that request is the
  last one issued, and the running flag is false.
\<close>

theorem processInbox_empty_token_terminates:
  assumes "loopIterations L k ([], [], p0) = Some (pageTok, reqs, p)"
    and "ListMessages (service p) pageTok = Inr resp"
    and "NextPageToken resp = []"
  shows "processInbox L p0 =
           Some ((addTotal (length (Messages resp)) (processMessages L (Messages resp) p))
                   \<lparr>isProcessing := False\<rparr>, reqs @ [pageTok])
       \<and> (case processInbox L p0 of
             None \<Rightarrow> False
           | Some (p', reqs') \<Rightarrow> \<not> isProcessing p' \<and> reqs' = reqs @ [pageTok])"
proof -
  let ?p = "addTotal (length (Messages resp)) (processMessages L (Messages resp) p)"
  have "loopBody L pageTok reqs p = Inl (?p, reqs @ [pageTok])"
    using assms(2,3) by (simp add: loopBody_def)
  then have "processInboxLoop L pageTok reqs p = Some (?p, reqs @ [pageTok])"
    by (subst processInboxLoop.simps) simp
  with loopIterations_loop[OF assms(1)]
  have "processInboxLoop L [] [] p0 = Some (?p, reqs @ [pageTok])" by simp
  then have "processInbox L p0 = Some (?p\<lparr>isProcessing := False\<rparr>, reqs @ [pageTok])"
    by (simp add: processInbox_def)
  then show ?thesis by simp
qed


theorem processInbox_empty_token_terminates_witness:
  "processInbox exampleLib (exampleProcessor exampleService) =
     Some ((addTotal 1 (processMessages exampleLib [''m3'']
              (addTotal 2 (processMessages exampleLib [''m1'', ''m2''] (exampleProcessor exampleService)))))
             \<lparr>isProcessing := False\<rparr>, [[], ''p2''])"
proof -
  let ?p0 = "exampleProcessor exampleService"
  let ?p1 = "addTotal 2 (processMessages exampleLib [''m1'', ''m2''] ?p0)"
  have s0: "service ?p0 = exampleService" by (simp add: exampleProcessor_def)
  have s1: "service ?p1 = exampleService" by (simp add: addTotal_def s0)
  have l: "ListMessages (service ?p0) [] = Inr \<lparr>Messages = [''m1'', ''m2''], NextPageToken = ''p2''\<rparr>"
    unfolding s0 by (simp add: exampleService_def)
  have it: "loopIterations exampleLib (Suc 0) ([], [], ?p0) = Some (''p2'', [[]], ?p1)"
    by (simp add: loopBody_def l numeral_2_eq_2)
  have f: "ListMessages (service ?p1) ''p2'' = Inr \<lparr>Messages = [''m3''], NextPageToken = []\<rparr>"
    unfolding s1 by (simp add: exampleService_def)
  show ?thesis
    using processInbox_empty_token_terminates[OF it f] by simp
qed


section \<open>Properties of the statistics\<close>

lemma mapAdd_apply: "mapAdd m k d k' = (if k' = k then Some (mapGet m k + d) else m k')"
  by (simp add: mapAdd_def)

lemma mapGet_mapAdd: "mapGet (mapAdd m k d) k' = (if k' = k then mapGet m k + d else mapGet m k')"
  by (simp add: mapAdd_def mapGet_def)

lemma mapAdd_commute: "mapAdd (mapAdd m a x) b y = mapAdd (mapAdd m b y) a x"
  by (rule ext) (simp add: mapAdd_apply mapGet_mapAdd)

lemma countRecipients_mapAdd: "countRecipients (mapAdd m k d) tos = mapAdd (countRecipients m tos) k d"
proof (induction tos arbitrary: m)
  case Nil
  show ?case by simp
next
  case (Cons to tos)
  have "countRecipients (mapAdd m k d) (to # tos) = countRecipients (mapAdd (mapAdd m to 1) k d) tos"
    by (simp add: mapAdd_commute[of m k d to 1])
  then show ?case using Cons.IH[of "mapAdd m to 1"] by simp
qed

lemma countRecipients_apply:
  "countRecipients m tos k =
     (if k \<in> set tos then Some (mapGet m k + of_nat (count_list tos k)) else m k)"
proof (induction tos arbitrary: m)
  case Nil
  show ?case by simp
next
  case (Cons to tos)
  show ?case
    by (simp add: Cons.IH mapGet_mapAdd mapAdd_apply mapGet_def split: option.split)
qed

lemma countRecipients_commute:
  "countRecipients (countRecipients m xs) ys = countRecipients (countRecipients m ys) xs"
proof (induction xs arbitrary: m)
  case Nil
  show ?case by simp
next
  case (Cons x xs)
  show ?case by (simp add: Cons.IH countRecipients_mapAdd)
qed

lemma FromCount_updateStatistics:
  "FromCount (updateStatistics L md st) = mapAdd (FromCount st) (From md) 1"
  by (simp add: updateStatistics_def Let_def)

lemma FromSize_updateStatistics:
  "FromSize (updateStatistics L md st) = mapAdd (FromSize st) (From md) (SizeEstimate md)"
  by (simp add: updateStatistics_def Let_def)

lemma ToCount_updateStatistics:
  "ToCount (updateStatistics L md st) = countRecipients (ToCount st) (To md)"
  by (simp add: updateStatistics_def Let_def)

lemma DateCount_updateStatistics:
  "DateCount (updateStatistics L md st) =
     (if IsZero (Date md) then DateCount st
      else mapAdd (DateCount st) (Format L (Date md) ''2006-01-02'') 1)"
  by (simp add: updateStatistics_def Let_def)

lemma TotalEmails_updateStatistics: "TotalEmails (updateStatistics L md st) = TotalEmails st"
  by (simp add: updateStatistics_def Let_def)

lemmas updateStatistics_fields =
  FromCount_updateStatistics FromSize_updateStatistics ToCount_updateStatistics
  DateCount_updateStatistics TotalEmails_updateStatistics

lemma updateStatistics_commute:
  "updateStatistics L a (updateStatistics L b st) = updateStatistics L b (updateStatistics L a st)"
proof (rule EmailStats.equality)
  show "FromCount (updateStatistics L a (updateStatistics L b st))
      = FromCount (updateStatistics L b (updateStatistics L a st))"
    by (simp add: FromCount_updateStatistics mapAdd_commute[of _ "From a"])
  show "FromSize (updateStatistics L a (updateStatistics L b st))
      = FromSize (updateStatistics L b (updateStatistics L a st))"
    by (simp add: FromSize_updateStatistics mapAdd_commute[of _ "From a"])
  show "ToCount (updateStatistics L a (updateStatistics L b st))
      = ToCount (updateStatistics L b (updateStatistics L a st))"
    by (simp add: ToCount_updateStatistics countRecipients_commute[of _ "To a"])
  show "DateCount (updateStatistics L a (updateStatistics L b st))
      = DateCount (updateStatistics L b (updateStatistics L a st))"
    by (simp add: DateCount_updateStatistics
          mapAdd_commute[of _ "Format L (Date a) ''2006-01-02''"])
  show "TotalEmails (updateStatistics L a (updateStatistics L b st))
      = TotalEmails (updateStatistics L b (updateStatistics L a st))"
    by (simp add: TotalEmails_updateStatistics)
  show "EmailStats.more (updateStatistics L a (updateStatistics L b st))
      = EmailStats.more (updateStatistics L b (updateStatistics L a st))"
    by simp
qed

lemma fold_updateStatistics_permuted:
  assumes "mset mds = mset mds'"
  shows "fold (updateStatistics L) mds st = fold (updateStatistics L) mds' st"
proof -
  have "fold (updateStatistics L) mds = fold (updateStatistics L) mds'"
    by (rule fold_multiset_equiv) (simp_all add: assms fun_eq_iff updateStatistics_commute)
  then show ?thesis by simp
qed

lemma TotalEmails_fold_updateStatistics:
  "TotalEmails (fold (updateStatistics L) mds st) = TotalEmails st"
  by (induction mds arbitrary: st) (simp_all add: TotalEmails_updateStatistics)

lemma processMessage_fetched:
  "GetMessage (service p) messageID = Inr msg \<Longrightarrow>
   processMessage L messageID p =
     p\<lparr>emails := emails p @ [extractMetadata L msg],
       stats := updateStatistics L (extractMetadata L msg) (stats p)\<rparr>"
  by (simp add: processMessage_def Let_def)

lemma emails_processMessages:
  "emails (processMessages L ids p) = emails p @ map (extractMetadata L) (fetched (service p) ids)"
proof (induction ids arbitrary: p)
  case Nil
  show ?case by simp
next
  case (Cons messageID ids)
  show ?case
    by (cases "GetMessage (service p) messageID")
       (simp_all add: Cons.IH processMessage_failed processMessage_fetched)
qed

lemma stats_processMessages:
  "stats (processMessages L ids p) =
     fold (updateStatistics L) (map (extractMetadata L) (fetched (service p) ids)) (stats p)"
proof (induction ids arbitrary: p)
  case Nil
  show ?case by simp
next
  case (Cons messageID ids)
  show ?case
    by (cases "GetMessage (service p) messageID")
       (simp_all add: Cons.IH processMessage_failed processMessage_fetched)
qed

lemma length_fetched_all:
  "(\<forall>messageID \<in> set ids. \<exists>msg. GetMessage svc messageID = Inr msg) \<Longrightarrow>
   length (fetched svc ids) = length ids"
  by (induction ids) auto

lemma updateStatistics_entries:
  "FromCount (updateStatistics L md st) (From md) = Some (mapGet (FromCount st) (From md) + 1)
   \<and> (\<forall>k. k \<noteq> From md \<longrightarrow> FromCount (updateStatistics L md st) k = FromCount st k)
   \<and> FromSize (updateStatistics L md st) (From md)
        = Some (mapGet (FromSize st) (From md) + SizeEstimate md)
   \<and> (\<forall>k. k \<noteq> From md \<longrightarrow> FromSize (updateStatistics L md st) k = FromSize st k)
   \<and> (\<forall>r. r \<in> set (To md) \<longrightarrow>
          ToCount (updateStatistics L md st) r
            = Some (mapGet (ToCount st) r + of_nat (count_list (To md) r)))
   \<and> (\<forall>r. r \<notin> set (To md) \<longrightarrow> ToCount (updateStatistics L md st) r = ToCount st r)
   \<and> (\<not> IsZero (Date md) \<longrightarrow>
          DateCount (updateStatistics L md st) (Format L (Date md) ''2006-01-02'')
            = Some (mapGet (DateCount st) (Format L (Date md) ''2006-01-02'') + 1)
        \<and> (\<forall>k. k \<noteq> Format L (Date md) ''2006-01-02'' \<longrightarrow>
               DateCount (updateStatistics L md st) k = DateCount st k))
   \<and> (IsZero (Date md) \<longrightarrow> DateCount (updateStatistics L md st) = DateCount st)
   \<and> TotalEmails (updateStatistics L md st) = TotalEmails st"
  by (simp add: updateStatistics_fields mapAdd_apply countRecipients_apply)

lemma example_m1_metadata:
  "extractMetadata exampleLib
     (exampleMessage ''m1'' ''Ann <a@b.com>'' ''Tue, 3 Jan 2006 10:00:00 +0000'')
   = \<lparr>ID = ''m1'', ThreadID = ''m1'', From = ''a@b.com'', To = [''me@x.org''], Subject = [],
      Date = \<lparr>sinceYearOne = 63271879200, zoneOffset = 0\<rparr>, Snippet = ''hello'',
      LabelIDs = [''INBOX''], SizeEstimate = 100\<rparr>"
  by (simp add: extractMetadata_def exampleMessage_def applyHeader_def parseDateHeader_def
        formats_def RFC1123Z_def RFC1123_def exampleLib_def extractEmailAddress_closed_form)

lemma example_m3_metadata:
  "extractMetadata exampleLib (exampleMessage ''m3'' ''a@b.com'' ''yesterday'')
   = \<lparr>ID = ''m3'', ThreadID = ''m3'', From = ''a@b.com'', To = [''me@x.org''], Subject = [],
      Date = zeroTime, Snippet = ''hello'', LabelIDs = [''INBOX''], SizeEstimate = 100\<rparr>"
  by (simp add: extractMetadata_def exampleMessage_def applyHeader_def parseDateHeader_def
        formats_def RFC1123Z_def RFC1123_def exampleLib_def extractEmailAddress_closed_form)

lemma example_fetch_m1:
  "GetMessage (service (exampleProcessor exampleService)) ''m1''
     = Inr (exampleMessage ''m1'' ''Ann <a@b.com>'' ''Tue, 3 Jan 2006 10:00:00 +0000'')"
  by (simp add: exampleProcessor_def exampleService_def)

lemma example_fetch_m3:
  "GetMessage (service (exampleProcessor exampleService)) ''m3''
     = Inr (exampleMessage ''m3'' ''a@b.com'' ''yesterday'')"
  by (simp add: exampleProcessor_def exampleService_def)

lemma example_stats_empty:
  "FromCount (stats (exampleProcessor svc)) = Map.empty"
  "FromSize (stats (exampleProcessor svc)) = Map.empty"
  "ToCount (stats (exampleProcessor svc)) = Map.empty"
  "DateCount (stats (exampleProcessor svc)) = Map.empty"
  "TotalEmails (stats (exampleProcessor svc)) = 0"
  "emails (exampleProcessor svc) = []"
  by (simp_all add: exampleProcessor_def NewEmailStats_def)

lemma service_addTotal [simp]: "service (addTotal n p) = service p"
  by (simp add: addTotal_def)

lemma emails_addTotal [simp]: "emails (addTotal n p) = emails p"
  by (simp add: addTotal_def)

lemma TotalEmails_addTotal:
  "TotalEmails (stats (addTotal n p)) = TotalEmails (stats p) + of_nat n"
  by (simp add: addTotal_def)

lemma TotalEmails_processMessages:
  "TotalEmails (stats (processMessages L ids p)) = TotalEmails (stats p)"
  by (simp add: stats_processMessages TotalEmails_fold_updateStatistics)

lemma loopBody_listed:
  assumes "ListMessages (service p) pageTok = Inr resp"
  shows "processorAfter (loopBody L pageTok reqs p)
           = addTotal (length (Messages resp)) (processMessages L (Messages resp) p)"
  using assms by (simp add: loopBody_def processorAfter_def Let_def)

lemma loopBody_total:
  "(case loopBody L pageTok reqs p of
      Inl (p', reqs') \<Rightarrow>
        reqs' = reqs @ [pageTok] \<and> service p' = service p
        \<and> TotalEmails (stats p') = TotalEmails (stats p) + of_nat (listedCount (service p) pageTok)
    | Inr (pageTok', reqs', p') \<Rightarrow>
        reqs' = reqs @ [pageTok] \<and> service p' = service p
        \<and> TotalEmails (stats p') = TotalEmails (stats p) + of_nat (listedCount (service p) pageTok))"
  by (simp add: loopBody_def listedCount_def Let_def TotalEmails_addTotal
        TotalEmails_processMessages split: sum.split)

lemma processInboxLoop_total:
  assumes run: "processInboxLoop L pageTok reqs p = Some y"
  shows "\<exists>new. snd y = reqs @ new \<and> service (fst y) = service p
      \<and> TotalEmails (stats (fst y))
          = TotalEmails (stats p) + of_nat (sum_list (map (listedCount (service p)) new))"
proof (rule processInboxLoop.raw_induct[where P = "\<lambda>L pageTok reqs p y.
      \<exists>new. snd y = reqs @ new \<and> service (fst y) = service p
      \<and> TotalEmails (stats (fst y))
          = TotalEmails (stats p) + of_nat (sum_list (map (listedCount (service p)) new))",
      OF _ run])
  fix loop :: "timelib \<Rightarrow> string \<Rightarrow> string list \<Rightarrow> InboxProcessor
                 \<Rightarrow> (InboxProcessor \<times> string list) option"
    and L pageTok reqs p y
  assume IH: "\<And>L pageTok reqs p y. loop L pageTok reqs p = Some y \<Longrightarrow>
      \<exists>new. snd y = reqs @ new \<and> service (fst y) = service p
      \<and> TotalEmails (stats (fst y))
          = TotalEmails (stats p) + of_nat (sum_list (map (listedCount (service p)) new))"
    and eq: "(case loopBody L pageTok reqs p of
                Inl fin \<Rightarrow> Some fin
              | Inr (pageTok', reqs', p') \<Rightarrow> loop L pageTok' reqs' p') = Some y"
  show "\<exists>new. snd y = reqs @ new \<and> service (fst y) = service p
      \<and> TotalEmails (stats (fst y))
          = TotalEmails (stats p) + of_nat (sum_list (map (listedCount (service p)) new))"
  proof (cases "loopBody L pageTok reqs p")
    case (Inl fin)
    obtain p' reqs' where d: "fin = (p', reqs')" by (cases fin) auto
    from eq Inl have y: "y = fin" by simp
    have "reqs' = reqs @ [pageTok] \<and> service p' = service p
        \<and> TotalEmails (stats p') = TotalEmails (stats p) + of_nat (listedCount (service p) pageTok)"
      using loopBody_total[where L = L and pageTok = pageTok and reqs = reqs and p = p] Inl d
      by simp
    then have "snd y = reqs @ [pageTok] \<and> service (fst y) = service p
      \<and> TotalEmails (stats (fst y))
          = TotalEmails (stats p) + of_nat (sum_list (map (listedCount (service p)) [pageTok]))"
      using y d by simp
    then show ?thesis by blast
  next
    case (Inr cont)
    obtain t r q where n: "cont = (t, r, q)" by (cases cont) auto
    from eq Inr n have rec: "loop L t r q = Some y" by simp
    have b: "r = reqs @ [pageTok] \<and> service q = service p
        \<and> TotalEmails (stats q) = TotalEmails (stats p) + of_nat (listedCount (service p) pageTok)"
      using loopBody_total[where L = L and pageTok = pageTok and reqs = reqs and p = p] Inr n
      by simp
    from IH[OF rec] obtain new where new: "snd y = r @ new" "service (fst y) = service q"
      "TotalEmails (stats (fst y))
          = TotalEmails (stats q) + of_nat (sum_list (map (listedCount (service q)) new))"
      by blast
    have "snd y = reqs @ (pageTok # new) \<and> service (fst y) = service p
      \<and> TotalEmails (stats (fst y))
          = TotalEmails (stats p) + of_nat (sum_list (map (listedCount (service p)) (pageTok # new)))"
      using new b by (simp add: add.assoc)
    then show ?thesis by blast
  qed
qed

lemma processInbox_total:
  assumes "processInbox L p0 = Some (p', reqs')"
  shows "TotalEmails (stats p')
           = TotalEmails (stats p0) + of_nat (sum_list (map (listedCount (service p0)) reqs'))"
proof -
  from assms obtain q where q: "processInboxLoop L [] [] p0 = Some (q, reqs')"
    and p': "p' = q\<lparr>isProcessing := False\<rparr>"
    by (auto simp: processInbox_def split: option.splits)
  from processInboxLoop_total[OF q] show ?thesis using p' by simp
qed

lemma example_run_returns:
  "processInbox exampleLib (exampleProcessor exampleService) =
     Some ((addTotal 1 (processMessages exampleLib [''m3'']
              (addTotal 2 (processMessages exampleLib [''m1'', ''m2''] (exampleProcessor exampleService)))))
             \<lparr>isProcessing := False\<rparr>, [[], ''p2''])"
proof -
  let ?p0 = "exampleProcessor exampleService"
  let ?p1 = "addTotal 2 (processMessages exampleLib [''m1'', ''m2''] ?p0)"
  let ?p2 = "addTotal 1 (processMessages exampleLib [''m3''] ?p1)"
  have s0: "service ?p0 = exampleService" by (simp add: exampleProcessor_def)
  have l0: "ListMessages (service ?p0) [] = Inr \<lparr>Messages = [''m1'', ''m2''], NextPageToken = ''p2''\<rparr>"
    unfolding s0 by (simp add: exampleService_def)
  have l1: "ListMessages (service ?p0) ''p2'' = Inr \<lparr>Messages = [''m3''], NextPageToken = []\<rparr>"
    unfolding s0 by (simp add: exampleService_def)
  have b0: "loopBody exampleLib [] [] ?p0 = Inr (''p2'', [[]], ?p1)"
    by (simp add: loopBody_def l0 numeral_2_eq_2)
  have b1: "loopBody exampleLib ''p2'' [[]] ?p1 = Inl (?p2, [[], ''p2''])"
    by (simp add: loopBody_def l1)
  have "processInboxLoop exampleLib [] [] ?p0 = processInboxLoop exampleLib ''p2'' [[]] ?p1"
    by (subst processInboxLoop.simps) (simp only: b0 sum.case prod.case)
  also have "\<dots> = Some (?p2, [[], ''p2''])"
    by (subst processInboxLoop.simps) (simp only: b1 sum.case)
  finally have "processInboxLoop exampleLib [] [] ?p0 = Some (?p2, [[], ''p2''])" .
  then show ?thesis by (simp only: processInbox_def option.case prod.case)
qed

lemma example_listed:
  "listedCount exampleService [] = 2" "listedCount exampleService ''p2'' = 1"
  by (simp_all add: listedCount_def exampleService_def)

text \<open>
  C1 (as amended). A record operation (the statistics section of \<open>processMessage\<close>) adds
  one to the sender's count, the size estimate to the sender's byte total, one to a
  recipient's count for each time the record names it, and one to the calendar day's
  count when the date is not the zero time. It leaves \<open>TotalEmails\<close> as it is, and the
  statistics after a sequence of record operations are the same for every order of the
  sequence. \<open>TotalEmails\<close> is advanced by the loop of \<open>processInbox\<close>: an iteration whose
  listing request fails leaves the processor as it is, and an iteration whose listing
  request succeeds adds the number of ids the page lists; when all fetches of the page
  succeed, that number is the number of records the iteration has added to the collected
  records and recorded in the statistics. A run that returns has advanced \<open>TotalEmails\<close>
  by the number of ids listed by all its listing requests.
\<close>

theorem record_increments_and_page_total:
  "FromCount (updateStatistics L md st) (From md) = Some (mapGet (FromCount st) (From md) + 1)
   \<and> FromSize (updateStatistics L md st) (From md)
        = Some (mapGet (FromSize st) (From md) + SizeEstimate md)
   \<and> (\<forall>r. r \<in> set (To md) \<longrightarrow>
          ToCount (updateStatistics L md st) r
            = Some (mapGet (ToCount st) r + of_nat (count_list (To md) r)))
   \<and> (\<not> IsZero (Date md) \<longrightarrow>
          DateCount (updateStatistics L md st) (Format L (Date md) ''2006-01-02'')
            = Some (mapGet (DateCount st) (Format L (Date md) ''2006-01-02'') + 1))
   \<and> TotalEmails (updateStatistics L md st) = TotalEmails st
   \<and> TotalEmails (fold (updateStatistics L) mds st) = TotalEmails st
   \<and> (mset mds = mset mds' \<longrightarrow>
         fold (updateStatistics L) mds st = fold (updateStatistics L) mds' st)
   \<and> (ListMessages (service q) failTok = Inl err \<longrightarrow>
         loopBody L failTok reqs q = Inl (q, reqs @ [failTok]))
   \<and> (ListMessages (service p) pageTok = Inr resp \<longrightarrow>
         TotalEmails (stats (processorAfter (loopBody L pageTok reqs p)))
           = TotalEmails (stats p) + of_nat (length (Messages resp))
       \<and> ((\<forall>messageID \<in> set (Messages resp). \<exists>msg. GetMessage (service p) messageID = Inr msg) \<longrightarrow>
            (let p' = processorAfter (loopBody L pageTok reqs p);
                 records = map (extractMetadata L) (fetched (service p) (Messages resp))
             in length records = length (Messages resp)
              \<and> mset (emails p') = mset (emails p) + mset records
              \<and> stats p' = (fold (updateStatistics L) records (stats p))
                              \<lparr>TotalEmails := TotalEmails (stats p) + of_nat (length records)\<rparr>)))
   \<and> (processInbox L p0 = Some (pEnd, reqsEnd) \<longrightarrow>
         TotalEmails (stats pEnd)
           = TotalEmails (stats p0) + of_nat (sum_list (map (listedCount (service p0)) reqsEnd)))"
proof -
  have failed: "loopBody L failTok reqs q = Inl (q, reqs @ [failTok])"
    if "ListMessages (service q) failTok = Inl err"
    using that by (simp add: loopBody_def)
  have listed: "TotalEmails (stats (processorAfter (loopBody L pageTok reqs p)))
           = TotalEmails (stats p) + of_nat (length (Messages resp))"
    if l: "ListMessages (service p) pageTok = Inr resp"
    by (simp add: loopBody_listed[OF l] TotalEmails_addTotal TotalEmails_processMessages)
  have page: "(let p' = processorAfter (loopBody L pageTok reqs p);
                 records = map (extractMetadata L) (fetched (service p) (Messages resp))
             in length records = length (Messages resp)
              \<and> mset (emails p') = mset (emails p) + mset records
              \<and> stats p' = (fold (updateStatistics L) records (stats p))
                              \<lparr>TotalEmails := TotalEmails (stats p) + of_nat (length records)\<rparr>)"
    if l: "ListMessages (service p) pageTok = Inr resp"
      and all: "\<forall>messageID \<in> set (Messages resp). \<exists>msg. GetMessage (service p) messageID = Inr msg"
    using length_fetched_all[OF all]
    by (simp add: Let_def loopBody_listed[OF l] addTotal_def emails_processMessages
          stats_processMessages TotalEmails_fold_updateStatistics)
  have run: "TotalEmails (stats pEnd)
           = TotalEmails (stats p0) + of_nat (sum_list (map (listedCount (service p0)) reqsEnd))"
    if "processInbox L p0 = Some (pEnd, reqsEnd)"
    using that by (rule processInbox_total)
  show ?thesis
    using updateStatistics_entries[of L md st] fold_updateStatistics_permuted[of mds mds' L st]
      failed listed page run
    by (simp add: TotalEmails_fold_updateStatistics)
qed

theorem record_increments_and_page_total_witness:
  "TotalEmails (updateStatistics exampleLib
       (extractMetadata exampleLib (exampleMessage ''m3'' ''a@b.com'' ''yesterday'')) NewEmailStats) = 0
   \<and> fold (updateStatistics exampleLib)
        [extractMetadata exampleLib (exampleMessage ''m3'' ''a@b.com'' ''yesterday''),
         extractMetadata exampleLib
           (exampleMessage ''m1'' ''Ann <a@b.com>'' ''Tue, 3 Jan 2006 10:00:00 +0000'')] NewEmailStats
     = fold (updateStatistics exampleLib)
        [extractMetadata exampleLib
           (exampleMessage ''m1'' ''Ann <a@b.com>'' ''Tue, 3 Jan 2006 10:00:00 +0000''),
         extractMetadata exampleLib (exampleMessage ''m3'' ''a@b.com'' ''yesterday'')] NewEmailStats
   \<and> loopBody exampleLib ''p2'' [[]] (exampleProcessor brokenService)
       = Inl (exampleProcessor brokenService, [[], ''p2''])
   \<and> TotalEmails (stats (processorAfter
         (loopBody exampleLib ''p2'' [[]] (exampleProcessor exampleService)))) = 1
   \<and> size (mset (emails (processorAfter
         (loopBody exampleLib ''p2'' [[]] (exampleProcessor exampleService))))) = 1
   \<and> (case processInbox exampleLib (exampleProcessor exampleService) of
         None \<Rightarrow> False
       | Some (pEnd, reqsEnd) \<Rightarrow> TotalEmails (stats pEnd) = 3 \<and> reqsEnd = [[], ''p2''])"
proof -
  let ?a = "extractMetadata exampleLib (exampleMessage ''m3'' ''a@b.com'' ''yesterday'')"
  let ?b = "extractMetadata exampleLib
              (exampleMessage ''m1'' ''Ann <a@b.com>'' ''Tue, 3 Jan 2006 10:00:00 +0000'')"
  let ?p = "exampleProcessor exampleService"
  let ?q = "exampleProcessor brokenService"
  let ?end = "(addTotal 1 (processMessages exampleLib [''m3'']
              (addTotal 2 (processMessages exampleLib [''m1'', ''m2''] ?p))))\<lparr>isProcessing := False\<rparr>"
  have sp: "service ?p = exampleService" by (simp add: exampleProcessor_def)
  have lq: "ListMessages (service ?q) ''p2'' = Inl (RemoteError ''listing failed'')"
    by (simp add: exampleProcessor_def brokenService_def exampleService_def)
  have lp: "ListMessages (service ?p) ''p2'' = Inr \<lparr>Messages = [''m3''], NextPageToken = []\<rparr>"
    unfolding sp by (simp add: exampleService_def)
  have all: "\<forall>messageID \<in> set (Messages \<lparr>Messages = [''m3''], NextPageToken = []\<rparr>).
               \<exists>msg. GetMessage (service ?p) messageID = Inr msg"
    by (simp add: example_fetch_m3)
  have perm: "mset [?a, ?b] = mset [?b, ?a]" by (simp add: add.commute)
  note t = record_increments_and_page_total[where L = exampleLib and md = ?a and st = NewEmailStats
      and mds = "[?a, ?b]" and mds' = "[?b, ?a]" and q = ?q and failTok = "''p2''"
      and err = "RemoteError ''listing failed''" and reqs = "[[]]" and p = ?p
      and pageTok = "''p2''" and resp = "\<lparr>Messages = [''m3''], NextPageToken = []\<rparr>"
      and ?p0.0 = ?p and pEnd = ?end and reqsEnd = "[[], ''p2'']"]
  from t have total: "TotalEmails (updateStatistics exampleLib ?a NewEmailStats) = 0"
    by (simp add: NewEmailStats_def)
  from t perm have order: "fold (updateStatistics exampleLib) [?a, ?b] NewEmailStats
      = fold (updateStatistics exampleLib) [?b, ?a] NewEmailStats"
    by blast
  from t lq have failed: "loopBody exampleLib ''p2'' [[]] ?q = Inl (?q, [[], ''p2''])"
    by simp
  from t lp have listed: "TotalEmails (stats (processorAfter (loopBody exampleLib ''p2'' [[]] ?p)))
      = TotalEmails (stats ?p) + of_nat (length (Messages \<lparr>Messages = [''m3''], NextPageToken = []\<rparr>))"
    by blast
  from t lp all have page: "(let p' = processorAfter (loopBody exampleLib ''p2'' [[]] ?p);
                 records = map (extractMetadata exampleLib)
                   (fetched (service ?p) (Messages \<lparr>Messages = [''m3''], NextPageToken = []\<rparr>))
             in length records = length (Messages \<lparr>Messages = [''m3''], NextPageToken = []\<rparr>)
              \<and> mset (emails p') = mset (emails ?p) + mset records
              \<and> stats p' = (fold (updateStatistics exampleLib) records (stats ?p))
                              \<lparr>TotalEmails := TotalEmails (stats ?p) + of_nat (length records)\<rparr>)"
    by blast
  from t example_run_returns have run: "TotalEmails (stats ?end)
      = TotalEmails (stats ?p) + of_nat (sum_list (map (listedCount (service ?p)) [[], ''p2'']))"
    by blast
  have one: "TotalEmails (stats (processorAfter (loopBody exampleLib ''p2'' [[]] ?p))) = 1"
    using listed by (simp add: example_stats_empty)
  have sz: "size (mset (emails (processorAfter (loopBody exampleLib ''p2'' [[]] ?p)))) = 1"
  proof -
    from page have "mset (emails (processorAfter (loopBody exampleLib ''p2'' [[]] ?p)))
        = mset (emails ?p) + mset (map (extractMetadata exampleLib) (fetched (service ?p) [''m3'']))"
      and "length (map (extractMetadata exampleLib) (fetched (service ?p) [''m3''])) = 1"
      by (simp_all add: Let_def)
    then show ?thesis by (simp add: example_stats_empty del: mset_map)
  qed
  have three: "TotalEmails (stats ?end) = 3"
    using run by (simp add: sp example_listed example_stats_empty)
  have fin: "(case processInbox exampleLib ?p of
         None \<Rightarrow> False
       | Some (pEnd, reqsEnd) \<Rightarrow> TotalEmails (stats pEnd) = 3 \<and> reqsEnd = [[], ''p2''])"
    unfolding example_run_returns using three by simp
  from total order failed one sz fin show ?thesis by blast
qed

theorem record_total_counterexample:
  "length (emails (processMessage exampleLib ''m1'' (exampleProcessor exampleService))) = 1
   \<and> TotalEmails (stats (processMessage exampleLib ''m1'' (exampleProcessor exampleService))) \<noteq> 1"
  by (simp add: processMessage_fetched[OF example_fetch_m1] example_stats_empty
        TotalEmails_updateStatistics)

section \<open>Properties of the timestamp extraction\<close>

lemma tryFormats_none:
  "(\<forall>l \<in> set fs. Parse L l v = None) \<Longrightarrow> tryFormats L fs v d = d"
  by (induction fs) simp_all

lemma tryFormats_first:
  "(\<forall>l \<in> set before. Parse L l v = None) \<Longrightarrow> Parse L layout v = Some t \<Longrightarrow>
   tryFormats L (before @ layout # after) v d = t"
  by (induction before) simp_all

lemma parseDateHeader_none:
  "(\<forall>l \<in> set formats. Parse L l v = None) \<Longrightarrow> parseDateHeader L v d = d"
  by (simp add: parseDateHeader_def tryFormats_none) (simp add: formats_def)

lemma parseDateHeader_first:
  assumes "formats = before @ layout # after"
    and "\<forall>l \<in> set before. Parse L l v = None"
    and "Parse L layout v = Some t"
  shows "parseDateHeader L v d = t"
proof (cases "Parse L RFC1123Z v")
  case None
  then show ?thesis
    using tryFormats_first[OF assms(2,3), of after d] assms(1)
    by (simp add: parseDateHeader_def)
next
  case (Some t0)
  have hd: "hd formats = RFC1123Z" by (simp add: formats_def)
  have "before = []"
  proof (rule ccontr)
    assume ne: "before \<noteq> []"
    have "hd (before @ layout # after) = RFC1123Z"
      using hd unfolding assms(1) .
    with ne have "hd before = RFC1123Z" by simp
    moreover from ne have "hd before \<in> set before" by simp
    ultimately show False using assms(2) Some by auto
  qed
  moreover have "hd (before @ layout # after) = RFC1123Z"
    using hd unfolding assms(1) .
  ultimately have "layout = RFC1123Z" by simp
  with Some assms(3) show ?thesis by (simp add: parseDateHeader_def)
qed

lemma extractHeaders_append:
  "extractHeaders L md (xs @ ys) = extractHeaders L (extractHeaders L md xs) ys"
  by (induction xs arbitrary: md) simp_all

lemma Date_extractHeaders_unparsed:
  "(\<forall>h \<in> set hs. Name h = ''Date'' \<longrightarrow> (\<forall>l \<in> set formats. Parse L l (Value h) = None)) \<Longrightarrow>
   Date (extractHeaders L md hs) = Date md"
proof (induction hs arbitrary: md)
  case Nil
  show ?case by simp
next
  case (Cons h hs)
  have "Date (applyHeader L md h) = Date md"
    using Cons.prems by (simp add: applyHeader_def parseDateHeader_none)
  then show ?case using Cons by simp
qed

lemma Date_extractMetadata_parsed:
  assumes "msg_Headers msg = pre @ h # post" and "Name h = ''Date''"
    and "\<forall>h' \<in> set post. Name h' \<noteq> ''Date''"
    and "formats = before @ layout # after"
    and "\<forall>l \<in> set before. Parse L l (Value h) = None"
    and "Parse L layout (Value h) = Some t"
  shows "Date (extractMetadata L msg) = t"
proof -
  have pd: "parseDateHeader L (Value h) d = t" for d
    using parseDateHeader_first[OF assms(4,5,6)] .
  have "Date (applyHeader L md h) = t" for md
    using assms(2) by (simp add: applyHeader_def pd)
  moreover have "Date (extractHeaders L md post) = Date md" for md
    using assms(3) Date_extractHeaders_unparsed[of post L md] by simp
  ultimately show ?thesis
    using assms(1) by (simp add: extractMetadata_def extractHeaders_append)
qed

lemma Date_extractMetadata_unparsed:
  assumes "\<forall>h \<in> set (msg_Headers msg).
             Name h = ''Date'' \<longrightarrow> (\<forall>l \<in> set formats. Parse L l (Value h) = None)"
  shows "Date (extractMetadata L msg) = zeroTime"
  using Date_extractHeaders_unparsed[OF assms] by (simp add: extractMetadata_def)

text \<open>
  C9. The layouts are tried in the order of \<open>formats\<close> and the first one that parses the
  \<open>Date\<close> header's value gives the timestamp of the record. When no layout parses any
  \<open>Date\<close> header of a message, the timestamp stays the zero time; then processing the
  message leaves the day counts as they were, while the sender's count and each
  recipient's count are incremented.
\<close>

theorem date_first_format_wins:
  "(formats = before @ layout # after \<and> (\<forall>l \<in> set before. Parse L l v = None)
      \<and> Parse L layout v = Some t \<longrightarrow> parseDateHeader L v d = t)
   \<and> (msg_Headers msg = pre @ h # post \<and> Name h = ''Date''
      \<and> (\<forall>h' \<in> set post. Name h' \<noteq> ''Date'')
      \<and> formats = before @ layout # after \<and> (\<forall>l \<in> set before. Parse L l (Value h) = None)
      \<and> Parse L layout (Value h) = Some t \<longrightarrow> Date (extractMetadata L msg) = t)
   \<and> ((\<forall>h \<in> set (msg_Headers msg).
          Name h = ''Date'' \<longrightarrow> (\<forall>l \<in> set formats. Parse L l (Value h) = None)) \<longrightarrow>
        Date (extractMetadata L msg) = zeroTime
      \<and> IsZero (Date (extractMetadata L msg))
      \<and> (GetMessage (service p) messageID = Inr msg \<longrightarrow>
           DateCount (stats (processMessage L messageID p)) = DateCount (stats p)
         \<and> FromCount (stats (processMessage L messageID p)) (From (extractMetadata L msg))
             = Some (mapGet (FromCount (stats p)) (From (extractMetadata L msg)) + 1)
         \<and> (\<forall>r \<in> set (To (extractMetadata L msg)).
               ToCount (stats (processMessage L messageID p)) r
                 = Some (mapGet (ToCount (stats p)) r
                           + of_nat (count_list (To (extractMetadata L msg)) r)))))"
proof (intro conjI impI)
  assume "formats = before @ layout # after \<and> (\<forall>l \<in> set before. Parse L l v = None)
      \<and> Parse L layout v = Some t"
  then show "parseDateHeader L v d = t"
    using parseDateHeader_first by blast
next
  assume a: "msg_Headers msg = pre @ h # post \<and> Name h = ''Date''
      \<and> (\<forall>h' \<in> set post. Name h' \<noteq> ''Date'')
      \<and> formats = before @ layout # after \<and> (\<forall>l \<in> set before. Parse L l (Value h) = None)
      \<and> Parse L layout (Value h) = Some t"
  then have pd: "parseDateHeader L (Value h) d = t" for d
    using parseDateHeader_first by blast
  have "Date (applyHeader L md h) = t" for md
    using a by (simp add: applyHeader_def pd)
  moreover have "Date (extractHeaders L md post) = Date md" for md
    using a Date_extractHeaders_unparsed[of post L md] by simp
  ultimately show "Date (extractMetadata L msg) = t"
    using a by (simp add: extractMetadata_def extractHeaders_append)
next
  assume a: "\<forall>h \<in> set (msg_Headers msg).
          Name h = ''Date'' \<longrightarrow> (\<forall>l \<in> set formats. Parse L l (Value h) = None)"
  show z: "Date (extractMetadata L msg) = zeroTime"
    using Date_extractHeaders_unparsed[OF a] by (simp add: extractMetadata_def)
  then show iz: "IsZero (Date (extractMetadata L msg))"
    by (simp add: IsZero_def zeroTime_def)
  assume f: "GetMessage (service p) messageID = Inr msg"
  have st: "stats (processMessage L messageID p)
              = updateStatistics L (extractMetadata L msg) (stats p)"
    using f by (simp add: processMessage_fetched)
  show "DateCount (stats (processMessage L messageID p)) = DateCount (stats p)"
    using updateStatistics_entries[of L "extractMetadata L msg" "stats p"] iz st by simp
  show "FromCount (stats (processMessage L messageID p)) (From (extractMetadata L msg))
             = Some (mapGet (FromCount (stats p)) (From (extractMetadata L msg)) + 1)"
    using updateStatistics_entries[of L "extractMetadata L msg" "stats p"] st by simp
  show "\<forall>r \<in> set (To (extractMetadata L msg)).
               ToCount (stats (processMessage L messageID p)) r
                 = Some (mapGet (ToCount (stats p)) r
                           + of_nat (count_list (To (extractMetadata L msg)) r))"
    using updateStatistics_entries[of L "extractMetadata L msg" "stats p"] st by simp
qed

theorem date_first_format_wins_witness:
  "parseDateHeader exampleLib ''Tue, 3 Jan 2006 10:00:00 +0000'' zeroTime
     = \<lparr>sinceYearOne = 63271879200, zoneOffset = 0\<rparr>
   \<and> Date (extractMetadata exampleLib
        (exampleMessage ''m1'' ''Ann <a@b.com>'' ''Tue, 3 Jan 2006 10:00:00 +0000''))
     = \<lparr>sinceYearOne = 63271879200, zoneOffset = 0\<rparr>
   \<and> Date (extractMetadata exampleLib (exampleMessage ''m3'' ''a@b.com'' ''yesterday'')) = zeroTime
   \<and> DateCount (stats (processMessage exampleLib ''m3'' (exampleProcessor exampleService)))
     = Map.empty
   \<and> FromCount (stats (processMessage exampleLib ''m3'' (exampleProcessor exampleService)))
        ''a@b.com'' = Some 1
   \<and> ToCount (stats (processMessage exampleLib ''m3'' (exampleProcessor exampleService)))
        ''me@x.org'' = Some 1"
proof -
  let ?v = "''Tue, 3 Jan 2006 10:00:00 +0000''"
  let ?m1 = "exampleMessage ''m1'' ''Ann <a@b.com>'' ''Tue, 3 Jan 2006 10:00:00 +0000''"
  let ?m3 = "exampleMessage ''m3'' ''a@b.com'' ''yesterday''"
  let ?t = "\<lparr>sinceYearOne = 63271879200, zoneOffset = 0\<rparr>"
  have fm: "formats = [RFC1123Z, RFC1123] @ ''Mon, 2 Jan 2006 15:04:05 -0700''
               # [''Mon, 2 Jan 2006 15:04:05 -0700 (MST)'']"
    by (simp add: formats_def)
  have early: "\<forall>l \<in> set [RFC1123Z, RFC1123]. Parse exampleLib l ?v = None"
    by (simp add: exampleLib_def RFC1123Z_def RFC1123_def)
  have hit: "Parse exampleLib ''Mon, 2 Jan 2006 15:04:05 -0700'' ?v = Some ?t"
    by (simp add: exampleLib_def)
  have h1: "msg_Headers ?m1 = [\<lparr>Name = ''From'', Value = ''Ann <a@b.com>''\<rparr>,
              \<lparr>Name = ''To'', Value = ''me@x.org''\<rparr>] @ \<lparr>Name = ''Date'', Value = ?v\<rparr> # []"
    by (simp add: exampleMessage_def)
  have none: "\<forall>h \<in> set (msg_Headers ?m3).
          Name h = ''Date'' \<longrightarrow> (\<forall>l \<in> set formats. Parse exampleLib l (Value h) = None)"
    by (simp add: exampleMessage_def exampleLib_def)
  note t1 = date_first_format_wins[where L = exampleLib and v = ?v and d = zeroTime
      and before = "[RFC1123Z, RFC1123]" and layout = "''Mon, 2 Jan 2006 15:04:05 -0700''"
      and after = "[''Mon, 2 Jan 2006 15:04:05 -0700 (MST)'']" and t = ?t
      and msg = ?m1 and h = "\<lparr>Name = ''Date'', Value = ?v\<rparr>" and post = "[]"
      and pre = "[\<lparr>Name = ''From'', Value = ''Ann <a@b.com>''\<rparr>,
              \<lparr>Name = ''To'', Value = ''me@x.org''\<rparr>]"]
  note t3 = date_first_format_wins[where L = exampleLib and msg = ?m3
      and p = "exampleProcessor exampleService" and messageID = "''m3''"]
  have a: "parseDateHeader exampleLib ?v zeroTime = ?t"
    using t1 fm early hit by blast
  have b: "Date (extractMetadata exampleLib ?m1) = ?t"
    using t1 fm early hit h1 by simp
  have c: "Date (extractMetadata exampleLib ?m3) = zeroTime"
    using t3 none by blast
  have d: "DateCount (stats (processMessage exampleLib ''m3'' (exampleProcessor exampleService)))
             = DateCount (stats (exampleProcessor exampleService))
         \<and> FromCount (stats (processMessage exampleLib ''m3'' (exampleProcessor exampleService)))
              (From (extractMetadata exampleLib ?m3))
             = Some (mapGet (FromCount (stats (exampleProcessor exampleService)))
                       (From (extractMetadata exampleLib ?m3)) + 1)
         \<and> (\<forall>r \<in> set (To (extractMetadata exampleLib ?m3)).
               ToCount (stats (processMessage exampleLib ''m3'' (exampleProcessor exampleService))) r
                 = Some (mapGet (ToCount (stats (exampleProcessor exampleService))) r
                           + of_nat (count_list (To (extractMetadata exampleLib ?m3)) r)))"
    using t3 none example_fetch_m3 by blast
  from d have e: "DateCount (stats (processMessage exampleLib ''m3'' (exampleProcessor exampleService)))
       = Map.empty
     \<and> FromCount (stats (processMessage exampleLib ''m3'' (exampleProcessor exampleService)))
        ''a@b.com'' = Some 1
     \<and> ToCount (stats (processMessage exampleLib ''m3'' (exampleProcessor exampleService)))
        ''me@x.org'' = Some 1"
    by (simp add: example_m3_metadata example_stats_empty mapGet_def)
  from a b c e show ?thesis by blast
qed


section \<open>Day counts and parsed timestamps\<close>

lemma year_one_fetch:
  "GetMessage (service (exampleProcessor yearOneService)) ''y1''
     = Inr (exampleMessage ''y1'' ''a@b.com'' ''Mon, 01 Jan 0001 00:00:00 +0000'')"
  by (simp add: exampleProcessor_def yearOneService_def)

lemma year_one_parse:
  "Parse yearOneLib RFC1123Z ''Mon, 01 Jan 0001 00:00:00 +0000''
     = Some \<lparr>sinceYearOne = 0, zoneOffset = 0\<rparr>"
  by (simp add: yearOneLib_def)

lemma year_one_metadata:
  "extractMetadata yearOneLib (exampleMessage ''y1'' ''a@b.com'' ''Mon, 01 Jan 0001 00:00:00 +0000'')
   = \<lparr>ID = ''y1'', ThreadID = ''y1'', From = ''a@b.com'', To = [''me@x.org''], Subject = [],
      Date = \<lparr>sinceYearOne = 0, zoneOffset = 0\<rparr>, Snippet = ''hello'',
      LabelIDs = [''INBOX''], SizeEstimate = 100\<rparr>"
  by (simp add: extractMetadata_def exampleMessage_def applyHeader_def parseDateHeader_def
        year_one_parse extractEmailAddress_closed_form)

text \<open>
  C5 (as amended). Let the fetch of a message succeed and \<open>md\<close> be the record extracted
  from it. In the statistics after \<open>processMessage\<close>, the count entry of the record's
  sender is one more and its size entry is larger by the record's size estimate, and no
  other sender entry differs; the count entry of each recipient of the record is larger
  by the number of times the record names it, and no other recipient entry differs; the
  count entry of one calendar day is one more, no other day entry differing, exactly
  when the record's timestamp is not the zero time. So a \<open>Date\<close> header that parses to an
  instant other than the zero instant gives one day increment, and one that parses to
  the zero instant, or does not parse, gives none; in each case the sender and
  recipient entries change as said.
\<close>

theorem processMessage_contributions:
  assumes "GetMessage (service p) messageID = Inr msg"
    and "md = extractMetadata L msg"
    and "st' = stats (processMessage L messageID p)"
  shows "FromCount st' (From md) = Some (mapGet (FromCount (stats p)) (From md) + 1)
   \<and> (\<forall>k. k \<noteq> From md \<longrightarrow> FromCount st' k = FromCount (stats p) k)
   \<and> FromSize st' (From md) = Some (mapGet (FromSize (stats p)) (From md) + SizeEstimate md)
   \<and> (\<forall>k. k \<noteq> From md \<longrightarrow> FromSize st' k = FromSize (stats p) k)
   \<and> (\<forall>r. r \<in> set (To md) \<longrightarrow>
          ToCount st' r = Some (mapGet (ToCount (stats p)) r + of_nat (count_list (To md) r)))
   \<and> (\<forall>r. r \<notin> set (To md) \<longrightarrow> ToCount st' r = ToCount (stats p) r)
   \<and> (\<not> IsZero (Date md) \<longrightarrow>
          DateCount st' (Format L (Date md) ''2006-01-02'')
            = Some (mapGet (DateCount (stats p)) (Format L (Date md) ''2006-01-02'') + 1)
        \<and> (\<forall>k. k \<noteq> Format L (Date md) ''2006-01-02'' \<longrightarrow> DateCount st' k = DateCount (stats p) k))
   \<and> (IsZero (Date md) \<longrightarrow> DateCount st' = DateCount (stats p))
   \<and> (msg_Headers msg = pre @ h # post \<and> Name h = ''Date''
        \<and> (\<forall>h' \<in> set post. Name h' \<noteq> ''Date'')
        \<and> formats = before @ layout # after
        \<and> (\<forall>l \<in> set before. Parse L l (Value h) = None)
        \<and> Parse L layout (Value h) = Some t \<longrightarrow>
          Date md = t
        \<and> (\<not> IsZero t \<longrightarrow>
              DateCount st' (Format L t ''2006-01-02'')
                = Some (mapGet (DateCount (stats p)) (Format L t ''2006-01-02'') + 1)
            \<and> (\<forall>k. k \<noteq> Format L t ''2006-01-02'' \<longrightarrow> DateCount st' k = DateCount (stats p) k))
        \<and> (IsZero t \<longrightarrow> DateCount st' = DateCount (stats p)))
   \<and> ((\<forall>h \<in> set (msg_Headers msg).
          Name h = ''Date'' \<longrightarrow> (\<forall>l \<in> set formats. Parse L l (Value h) = None)) \<longrightarrow>
        Date md = zeroTime \<and> DateCount st' = DateCount (stats p))"
proof -
  have st: "st' = updateStatistics L md (stats p)"
    using assms by (simp add: processMessage_fetched)
  note e = updateStatistics_entries[of L md "stats p", folded st]
  have parsed: "Date md = t
        \<and> (\<not> IsZero t \<longrightarrow>
              DateCount st' (Format L t ''2006-01-02'')
                = Some (mapGet (DateCount (stats p)) (Format L t ''2006-01-02'') + 1)
            \<and> (\<forall>k. k \<noteq> Format L t ''2006-01-02'' \<longrightarrow> DateCount st' k = DateCount (stats p) k))
        \<and> (IsZero t \<longrightarrow> DateCount st' = DateCount (stats p))"
    if a: "msg_Headers msg = pre @ h # post \<and> Name h = ''Date''
        \<and> (\<forall>h' \<in> set post. Name h' \<noteq> ''Date'')
        \<and> formats = before @ layout # after
        \<and> (\<forall>l \<in> set before. Parse L l (Value h) = None)
        \<and> Parse L layout (Value h) = Some t"
  proof -
    have "Date md = t"
      unfolding assms(2) using a Date_extractMetadata_parsed[of msg pre h post before layout after L t]
      by blast
    with e show ?thesis by simp
  qed
  have unparsed: "Date md = zeroTime \<and> DateCount st' = DateCount (stats p)"
    if a: "\<forall>h \<in> set (msg_Headers msg).
          Name h = ''Date'' \<longrightarrow> (\<forall>l \<in> set formats. Parse L l (Value h) = None)"
  proof -
    have z: "Date md = zeroTime"
      unfolding assms(2) using a by (rule Date_extractMetadata_unparsed)
    then have "IsZero (Date md)" by (simp add: IsZero_def zeroTime_def)
    with e z show ?thesis by simp
  qed
  from e parsed unparsed show ?thesis by blast
qed

theorem processMessage_contributions_witness:
  "FromCount (stats (processMessage exampleLib ''m1'' (exampleProcessor exampleService))) ''a@b.com''
     = Some 1
   \<and> FromSize (stats (processMessage exampleLib ''m1'' (exampleProcessor exampleService))) ''a@b.com''
     = Some 100
   \<and> ToCount (stats (processMessage exampleLib ''m1'' (exampleProcessor exampleService))) ''me@x.org''
     = Some 1
   \<and> DateCount (stats (processMessage exampleLib ''m1'' (exampleProcessor exampleService))) ''2006-01-03''
     = Some 1
   \<and> FromCount (stats (processMessage exampleLib ''m3'' (exampleProcessor exampleService))) ''a@b.com''
     = Some 1
   \<and> ToCount (stats (processMessage exampleLib ''m3'' (exampleProcessor exampleService))) ''me@x.org''
     = Some 1
   \<and> DateCount (stats (processMessage exampleLib ''m3'' (exampleProcessor exampleService)))
     = Map.empty
   \<and> FromCount (stats (processMessage yearOneLib ''y1'' (exampleProcessor yearOneService))) ''a@b.com''
     = Some 1
   \<and> DateCount (stats (processMessage yearOneLib ''y1'' (exampleProcessor yearOneService)))
     = Map.empty"
proof -
  let ?v = "''Tue, 3 Jan 2006 10:00:00 +0000''"
  let ?z = "''Mon, 01 Jan 0001 00:00:00 +0000''"
  let ?t = "\<lparr>sinceYearOne = 63271879200, zoneOffset = 0\<rparr>"
  let ?front = "[\<lparr>Name = ''From'', Value = ''Ann <a@b.com>''\<rparr>, \<lparr>Name = ''To'', Value = ''me@x.org''\<rparr>]"
  let ?frontz = "[\<lparr>Name = ''From'', Value = ''a@b.com''\<rparr>, \<lparr>Name = ''To'', Value = ''me@x.org''\<rparr>]"
  have fm: "formats = [RFC1123Z, RFC1123] @ ''Mon, 2 Jan 2006 15:04:05 -0700''
               # [''Mon, 2 Jan 2006 15:04:05 -0700 (MST)'']"
    by (simp add: formats_def)
  have fz: "formats = [] @ RFC1123Z # [RFC1123, ''Mon, 2 Jan 2006 15:04:05 -0700'',
               ''Mon, 2 Jan 2006 15:04:05 -0700 (MST)'']"
    by (simp add: formats_def)
  have early: "\<forall>l \<in> set [RFC1123Z, RFC1123]. Parse exampleLib l ?v = None"
    by (simp add: exampleLib_def RFC1123Z_def RFC1123_def)
  have hit: "Parse exampleLib ''Mon, 2 Jan 2006 15:04:05 -0700'' ?v = Some ?t"
    by (simp add: exampleLib_def)
  have h1: "msg_Headers (exampleMessage ''m1'' ''Ann <a@b.com>'' ?v)
              = ?front @ \<lparr>Name = ''Date'', Value = ?v\<rparr> # []"
    by (simp add: exampleMessage_def)
  have hz: "msg_Headers (exampleMessage ''y1'' ''a@b.com'' ?z)
              = ?frontz @ \<lparr>Name = ''Date'', Value = ?z\<rparr> # []"
    by (simp add: exampleMessage_def)
  have none: "\<forall>h \<in> set (msg_Headers (exampleMessage ''m3'' ''a@b.com'' ''yesterday'')).
          Name h = ''Date'' \<longrightarrow> (\<forall>l \<in> set formats. Parse exampleLib l (Value h) = None)"
    by (simp add: exampleMessage_def exampleLib_def)
  note t1 = processMessage_contributions[OF example_fetch_m1 example_m1_metadata[symmetric] refl,
      where pre = ?front and h = "\<lparr>Name = ''Date'', Value = ?v\<rparr>" and post = "[]"
      and before = "[RFC1123Z, RFC1123]" and layout = "''Mon, 2 Jan 2006 15:04:05 -0700''"
      and after = "[''Mon, 2 Jan 2006 15:04:05 -0700 (MST)'']" and t = ?t]
  note t3 = processMessage_contributions[OF example_fetch_m3 example_m3_metadata[symmetric] refl]
  note tz = processMessage_contributions[OF year_one_fetch year_one_metadata[symmetric] refl,
      where pre = ?frontz and h = "\<lparr>Name = ''Date'', Value = ?z\<rparr>" and post = "[]"
      and before = "[]" and layout = RFC1123Z
      and after = "[RFC1123, ''Mon, 2 Jan 2006 15:04:05 -0700'',
               ''Mon, 2 Jan 2006 15:04:05 -0700 (MST)'']"
      and t = "\<lparr>sinceYearOne = 0, zoneOffset = 0\<rparr>"]
  have a: "FromCount (stats (processMessage exampleLib ''m1'' (exampleProcessor exampleService))) ''a@b.com''
       = Some 1
     \<and> FromSize (stats (processMessage exampleLib ''m1'' (exampleProcessor exampleService))) ''a@b.com''
       = Some 100
     \<and> ToCount (stats (processMessage exampleLib ''m1'' (exampleProcessor exampleService))) ''me@x.org''
       = Some 1"
    using t1 by (simp add: example_stats_empty mapGet_def)
  have b: "DateCount (stats (processMessage exampleLib ''m1'' (exampleProcessor exampleService)))
             ''2006-01-03'' = Some 1"
    using t1 fm early hit h1
    by (simp add: example_stats_empty mapGet_def IsZero_def exampleLib_def)
  have c: "FromCount (stats (processMessage exampleLib ''m3'' (exampleProcessor exampleService))) ''a@b.com''
       = Some 1
     \<and> ToCount (stats (processMessage exampleLib ''m3'' (exampleProcessor exampleService))) ''me@x.org''
       = Some 1
     \<and> DateCount (stats (processMessage exampleLib ''m3'' (exampleProcessor exampleService)))
       = Map.empty"
    using t3 none by (simp add: example_stats_empty mapGet_def)
  have d: "FromCount (stats (processMessage yearOneLib ''y1'' (exampleProcessor yearOneService))) ''a@b.com''
       = Some 1
     \<and> DateCount (stats (processMessage yearOneLib ''y1'' (exampleProcessor yearOneService)))
       = Map.empty"
    using tz fz hz year_one_parse
    by (simp add: example_stats_empty mapGet_def IsZero_def)
  from a b c d show ?thesis by blast
qed

theorem parsed_zero_instant_counterexample:
  "Parse yearOneLib RFC1123Z ''Mon, 01 Jan 0001 00:00:00 +0000''
     = Some \<lparr>sinceYearOne = 0, zoneOffset = 0\<rparr>
   \<and> Date (extractMetadata yearOneLib
        (exampleMessage ''y1'' ''a@b.com'' ''Mon, 01 Jan 0001 00:00:00 +0000''))
     = \<lparr>sinceYearOne = 0, zoneOffset = 0\<rparr>
   \<and> dom (DateCount (stats (exampleProcessor yearOneService))) = {}
   \<and> dom (DateCount (stats (processMessage yearOneLib ''y1'' (exampleProcessor yearOneService)))) = {}
   \<and> FromCount (stats (processMessage yearOneLib ''y1'' (exampleProcessor yearOneService))) ''a@b.com''
     = Some 1"
  by (simp add: year_one_parse year_one_metadata processMessage_fetched[OF year_one_fetch]
        example_stats_empty updateStatistics_fields IsZero_def mapAdd_apply mapGet_def)

section \<open>Properties of the top senders\<close>

lemma sortInner_step:
  "j < length s \<Longrightarrow>
   sortInner i j s =
     sortInner i (j + 1)
       (if sint (Count (s ! i)) < sint (Count (s ! j)) then s[i := s ! j, j := s ! i] else s)"
  by (subst sortInner.simps) simp

lemma sortInner_stop: "\<not> j < length s \<Longrightarrow> sortInner i j s = s"
  by (subst sortInner.simps) simp

lemma length_sortInner: "length (sortInner i j s) = length s"
proof (induction i j s rule: sortInner.induct)
  case (1 i j s)
  show ?case
  proof (cases "j < length s")
    case True
    have "length (sortInner i j s) =
            length (if sint (Count (s ! i)) < sint (Count (s ! j)) then s[i := s ! j, j := s ! i] else s)"
      unfolding sortInner_step[OF True] using "1.IH"[OF True] .
    then show ?thesis by simp
  next
    case False
    then show ?thesis by (simp add: sortInner_stop)
  qed
qed

lemma mset_sortInner: "i < length s \<Longrightarrow> mset (sortInner i j s) = mset s"
proof (induction i j s rule: sortInner.induct)
  case (1 i j s)
  show ?case
  proof (cases "j < length s")
    case True
    let ?s = "if sint (Count (s ! i)) < sint (Count (s ! j)) then s[i := s ! j, j := s ! i] else s"
    have len: "i < length ?s" using "1.prems" by simp
    have "mset (sortInner i j s) = mset ?s"
      unfolding sortInner_step[OF True] using "1.IH"[OF True len] .
    also have "\<dots> = mset s"
      using mset_swap[of j s i] True "1.prems" by simp
    finally show ?thesis .
  next
    case False
    then show ?thesis by (simp add: sortInner_stop)
  qed
qed

lemma sortInner_prefix: "k < i \<Longrightarrow> i < j \<Longrightarrow> sortInner i j s ! k = s ! k"
proof (induction i j s rule: sortInner.induct)
  case (1 i j s)
  show ?case
  proof (cases "j < length s")
    case True
    let ?s = "if sint (Count (s ! i)) < sint (Count (s ! j)) then s[i := s ! j, j := s ! i] else s"
    have "sortInner i j s ! k = ?s ! k"
      unfolding sortInner_step[OF True] using "1.IH"[OF True] "1.prems" by simp
    also have "\<dots> = s ! k" using "1.prems" by simp
    finally show ?thesis .
  next
    case False
    then show ?thesis by (simp add: sortInner_stop)
  qed
qed

lemma sortInner_max:
  "i < j \<Longrightarrow> j \<le> length s \<Longrightarrow>
   (\<forall>k. i < k \<and> k < j \<longrightarrow> sint (Count (s ! k)) \<le> sint (Count (s ! i))) \<Longrightarrow>
   i < k \<Longrightarrow> k < length s \<Longrightarrow>
   sint (Count (sortInner i j s ! k)) \<le> sint (Count (sortInner i j s ! i))"
proof (induction i j s rule: sortInner.induct)
  case (1 i j s)
  show ?case
  proof (cases "j < length s")
    case True
    let ?s = "if sint (Count (s ! i)) < sint (Count (s ! j)) then s[i := s ! j, j := s ! i] else s"
    have len: "length ?s = length s" by simp
    have inv: "\<forall>k. i < k \<and> k < j + 1 \<longrightarrow> sint (Count (?s ! k)) \<le> sint (Count (?s ! i))"
    proof (intro allI impI)
      fix m assume m: "i < m \<and> m < j + 1"
      show "sint (Count (?s ! m)) \<le> sint (Count (?s ! i))"
      proof (cases "sint (Count (s ! i)) < sint (Count (s ! j))")
        case swap: True
        have si: "?s ! i = s ! j" using swap True "1.prems"(1) by simp
        show ?thesis
        proof (cases "m = j")
          case True
          then have "?s ! m = s ! i" using swap \<open>j < length s\<close> by simp
          with si swap show ?thesis by simp
        next
          case False
          with m have mj: "i < m \<and> m < j" by simp
          then have "?s ! m = s ! m" using swap by simp
          moreover have "sint (Count (s ! m)) \<le> sint (Count (s ! i))"
            using "1.prems"(3) mj by blast
          ultimately show ?thesis using si swap by simp
        qed
      next
        case keep: False
        show ?thesis
        proof (cases "m = j")
          case True
          with keep show ?thesis by simp
        next
          case False
          with m have "i < m \<and> m < j" by simp
          with "1.prems"(3) keep show ?thesis by simp
        qed
      qed
    qed
    have "sint (Count (sortInner i (j + 1) ?s ! k)) \<le> sint (Count (sortInner i (j + 1) ?s ! i))"
      using "1.IH"[OF True _ _ inv "1.prems"(4)] "1.prems"(1,5) True len by simp
    then show ?thesis unfolding sortInner_step[OF True] .
  next
    case False
    with "1.prems" have "j = length s" by simp
    with "1.prems" False show ?thesis by (simp add: sortInner_stop)
  qed
qed

lemma sortOuter_step:
  "i < length s \<Longrightarrow> sortOuter i s = sortOuter (i + 1) (sortInner i (i + 1) s)"
  by (subst sortOuter.simps) simp

lemma sortOuter_stop: "\<not> i < length s \<Longrightarrow> sortOuter i s = s"
  by (subst sortOuter.simps) simp

lemma mset_sortOuter: "mset (sortOuter i s) = mset s"
proof (induction i s rule: sortOuter.induct)
  case (1 i s)
  show ?case
  proof (cases "i < length s")
    case True
    have "mset (sortOuter i s) = mset (sortInner i (i + 1) s)"
      unfolding sortOuter_step[OF True] using "1.IH"[OF True] .
    then show ?thesis using True by (simp add: mset_sortInner)
  next
    case False
    then show ?thesis by (simp add: sortOuter_stop)
  qed
qed

lemma length_sortOuter: "length (sortOuter i s) = length s"
  using mset_sortOuter[of i s] by (rule mset_eq_length)

lemma set_sortOuter: "set (sortOuter i s) = set s"
  using mset_sortOuter[of i s] by (rule mset_eq_setD)

lemma sortInner_suffix_member:
  assumes "i < length s" "i \<le> b" "b < length s"
  shows "\<exists>b'. i \<le> b' \<and> b' < length s \<and> sortInner i (i + 1) s ! b = s ! b'"
proof -
  let ?r = "sortInner i (i + 1) s"
  have len: "length ?r = length s" by (rule length_sortInner)
  have "take i ?r = take i s"
    by (rule nth_take_lemma) (simp_all add: length_sortInner assms(1) less_imp_le sortInner_prefix)
  moreover have "mset (take i ?r @ drop i ?r) = mset (take i s @ drop i s)"
    using mset_sortInner[OF assms(1), of "i + 1"] by (simp only: append_take_drop_id)
  ultimately have "mset (drop i ?r) = mset (drop i s)"
    by (simp only: mset_append add_left_cancel)
  then have "set (drop i ?r) = set (drop i s)"
    by (rule mset_eq_setD)
  moreover have "?r ! b \<in> set (drop i ?r)"
  proof -
    have "b - i < length (drop i ?r)" using assms len by simp
    then have "drop i ?r ! (b - i) \<in> set (drop i ?r)" by (rule nth_mem)
    moreover have "drop i ?r ! (b - i) = ?r ! b" using assms len by simp
    ultimately show ?thesis by simp
  qed
  ultimately have "?r ! b \<in> set (drop i s)" by simp
  then obtain m where "m < length (drop i s)" "drop i s ! m = ?r ! b"
    by (auto simp: in_set_conv_nth)
  then have "i \<le> i + m \<and> i + m < length s \<and> ?r ! b = s ! (i + m)"
    using assms(1) by auto
  then show ?thesis by blast
qed

lemma sortOuter_descending:
  "(\<forall>a b. a < b \<and> a < i \<and> b < length s \<longrightarrow> sint (Count (s ! b)) \<le> sint (Count (s ! a))) \<Longrightarrow>
   a < b \<Longrightarrow> b < length s \<Longrightarrow>
   sint (Count (sortOuter i s ! b)) \<le> sint (Count (sortOuter i s ! a))"
proof (induction i s rule: sortOuter.induct)
  case (1 i s)
  show ?case
  proof (cases "i < length s")
    case True
    let ?r = "sortInner i (i + 1) s"
    have len: "length ?r = length s" by (rule length_sortInner)
    have inv: "\<forall>a b. a < b \<and> a < i + 1 \<and> b < length ?r \<longrightarrow>
                 sint (Count (?r ! b)) \<le> sint (Count (?r ! a))"
    proof (intro allI impI)
      fix x y assume xy: "x < y \<and> x < i + 1 \<and> y < length ?r"
      show "sint (Count (?r ! y)) \<le> sint (Count (?r ! x))"
      proof (cases "x < i")
        case xi: True
        then have rx: "?r ! x = s ! x" by (simp add: sortInner_prefix)
        show ?thesis
        proof (cases "y < i")
          case True
          then have "?r ! y = s ! y" by (simp add: sortInner_prefix)
          with rx "1.prems"(1) xy xi len show ?thesis by simp
        next
          case False
          then obtain y' where y': "i \<le> y'" "y' < length s" "?r ! y = s ! y'"
            using sortInner_suffix_member[OF \<open>i < length s\<close>, of y] xy len by auto
          moreover from xi y' have "x < y'" by simp
          ultimately have "sint (Count (s ! y')) \<le> sint (Count (s ! x))"
            using "1.prems"(1) xi by blast
          with rx y' show ?thesis by simp
        qed
      next
        case False
        with xy have "x = i" by simp
        with xy len show ?thesis
          using sortInner_max[of i "i + 1" s y] True by simp
      qed
    qed
    have "sint (Count (sortOuter (i + 1) ?r ! b)) \<le> sint (Count (sortOuter (i + 1) ?r ! a))"
      using "1.IH"[OF True inv "1.prems"(2)] "1.prems"(3) len by simp
    then show ?thesis unfolding sortOuter_step[OF True] .
  next
    case False
    with "1.prems" show ?thesis by (simp add: sortOuter_stop)
  qed
qed

lemma sorted_sortOuter:
  "sorted_wrt (\<lambda>x y. sint (Count y) \<le> sint (Count x)) (sortOuter 0 s)"
  unfolding sorted_wrt_iff_nth_less
  using sortOuter_descending[of 0 s] by (simp add: length_sortOuter)

lemma filter_From_none: "k \<notin> From ` set mds \<Longrightarrow> filter (\<lambda>m. From m = k) mds = []"
  by (induction mds) auto

lemma FromCount_fold_updateStatistics:
  "FromCount (fold (updateStatistics L) mds st) k =
     (if k \<in> From ` set mds
      then Some (mapGet (FromCount st) k + of_nat (length (filter (\<lambda>m. From m = k) mds)))
      else FromCount st k)"
proof (induction mds arbitrary: st)
  case Nil
  show ?case by simp
next
  case (Cons m mds)
  show ?case
    by (auto simp: Cons.IH FromCount_updateStatistics mapGet_mapAdd mapAdd_apply mapGet_def
          filter_From_none split: option.split)
qed

lemma FromSize_fold_updateStatistics:
  "FromSize (fold (updateStatistics L) mds st) k =
     (if k \<in> From ` set mds
      then Some (mapGet (FromSize st) k
                   + sum_list (map SizeEstimate (filter (\<lambda>m. From m = k) mds)))
      else FromSize st k)"
proof (induction mds arbitrary: st)
  case Nil
  show ?case by simp
next
  case (Cons m mds)
  show ?case
    by (auto simp: Cons.IH FromSize_updateStatistics mapGet_mapAdd mapAdd_apply mapGet_def
          filter_From_none add.assoc split: option.split)
qed

lemma dom_FromCount_fold_updateStatistics:
  "dom (FromCount (fold (updateStatistics L) mds NewEmailStats)) = From ` set mds"
  by (auto simp: dom_def FromCount_fold_updateStatistics NewEmailStats_def)

text \<open>
  C3. Let \<open>n \<ge> 0\<close> and let \<open>order\<close> be the order in which the map iteration visits the
  senders. \<open>GetTopSenders\<close> returns \<open>min n d\<close> entries, \<open>d\<close> the number of distinct senders;
  they are of distinct senders, in non-increasing order of count, each with the count
  and the byte total stored for its sender, and no sender left out has a higher count
  than a sender returned. When the statistics are those of a sequence of recorded
  messages, the count of an entry is the number of the records of that sender and its
  byte total is the sum of their size estimates (as 64-bit integers).
\<close>

theorem GetTopSenders_top_n:
  assumes "0 \<le> n" and "distinct order" and "set order = dom (FromCount (stats p))"
  shows "\<exists>top. GetTopSenders order p n = Inr top
     \<and> int (length top) = min n (int (card (dom (FromCount (stats p)))))
     \<and> sorted_wrt (\<lambda>x y. sint (Count y) \<le> sint (Count x)) top
     \<and> distinct (map Email top)
     \<and> (\<forall>e \<in> set top. FromCount (stats p) (Email e) = Some (Count e)
                      \<and> Size e = mapGet (FromSize (stats p)) (Email e))
     \<and> (\<forall>e \<in> set top. \<forall>k \<in> dom (FromCount (stats p)) - Email ` set top.
           sint (mapGet (FromCount (stats p)) k) \<le> sint (Count e))
     \<and> (\<forall>L mds total.
           stats p = (fold (updateStatistics L) mds NewEmailStats)\<lparr>TotalEmails := total\<rparr> \<longrightarrow>
           card (dom (FromCount (stats p))) = card (From ` set mds)
         \<and> (\<forall>e \<in> set top.
               Count e = of_nat (length (filter (\<lambda>m. From m = Email e) mds))
             \<and> Size e = sum_list (map SizeEstimate (filter (\<lambda>m. From m = Email e) mds))))"
proof -
  let ?FC = "FromCount (stats p)" and ?FS = "FromSize (stats p)"
  let ?f = "\<lambda>email. \<lparr>Email = email, Count = mapGet ?FC email, Size = mapGet ?FS email\<rparr>"
  let ?sorted = "sortOuter 0 (map ?f order)"
  let ?m = "nat (if n > int (length order) then int (length order) else n)"
  let ?top = "take ?m ?sorted"
  have len: "length ?sorted = length order" by (simp add: length_sortOuter)
  have res: "GetTopSenders order p n = Inr ?top"
    using assms(1) by (simp add: GetTopSenders_def Let_def length_sortOuter)
  have card: "card (dom ?FC) = length order"
    using assms(2,3) distinct_card[of order] by simp
  have n: "int (length ?top) = min n (int (card (dom ?FC)))"
    using assms(1) by (auto simp: len card min_def)
  have srt: "sorted_wrt (\<lambda>x y. sint (Count y) \<le> sint (Count x)) ?top"
    using sorted_sortOuter[of "map ?f order"] by (rule sorted_wrt_take)
  have "mset (map Email ?sorted) = mset (map Email (map ?f order))"
    by (simp only: mset_map mset_sortOuter)
  also have "map Email (map ?f order) = order" by (simp add: comp_def)
  finally have eq: "mset (map Email ?sorted) = mset order" .
  have dall: "distinct (map Email ?sorted)"
    using mset_eq_imp_distinct_iff[OF eq] assms(2) by simp
  have dst: "distinct (map Email ?top)"
    using dall by (simp add: take_map[symmetric])
  have mem: "\<exists>k \<in> set order. e = ?f k" if "e \<in> set ?top" for e
  proof -
    from that have "e \<in> set ?sorted" by (rule in_set_takeD)
    then have "e \<in> set (map ?f order)" by (simp only: set_sortOuter)
    then show ?thesis by auto
  qed
  have val: "\<forall>e \<in> set ?top. ?FC (Email e) = Some (Count e) \<and> Size e = mapGet ?FS (Email e)"
  proof
    fix e assume "e \<in> set ?top"
    then obtain k where k: "k \<in> set order" "e = ?f k" using mem by blast
    with assms(3) obtain c where "?FC k = Some c" by auto
    with k show "?FC (Email e) = Some (Count e) \<and> Size e = mapGet ?FS (Email e)"
      by (simp add: mapGet_def)
  qed
  have top: "\<forall>e \<in> set ?top. \<forall>k \<in> dom ?FC - Email ` set ?top.
               sint (mapGet ?FC k) \<le> sint (Count e)"
  proof (intro ballI)
    fix e k assume e: "e \<in> set ?top" and k: "k \<in> dom ?FC - Email ` set ?top"
    from e obtain a where a: "a < length ?top" "?top ! a = e"
      by (auto simp: in_set_conv_nth)
    from k assms(3) have "?f k \<in> set (map ?f order)" by auto
    then have "?f k \<in> set ?sorted" by (simp only: set_sortOuter)
    then obtain b where b: "b < length ?sorted" "?sorted ! b = ?f k"
      by (auto simp: in_set_conv_nth)
    have "\<not> b < ?m"
    proof
      assume "b < ?m"
      with b have "?top ! b = ?f k" "b < length ?top" by simp_all
      then have "?f k \<in> set ?top" using nth_mem[of b ?top] by simp
      then have "Email (?f k) \<in> Email ` set ?top" by (rule imageI)
      with k show False by simp
    qed
    with a have ab: "a < b" by simp
    have ea: "?sorted ! a = e" using a by simp
    have "sint (Count (?sorted ! b)) \<le> sint (Count (?sorted ! a))"
      using sortOuter_descending[of 0 "map ?f order" a b] ab b(1) len by simp
    with b ea show "sint (mapGet ?FC k) \<le> sint (Count e)" by simp
  qed
  have rec: "\<forall>L mds total.
           stats p = (fold (updateStatistics L) mds NewEmailStats)\<lparr>TotalEmails := total\<rparr> \<longrightarrow>
           card (dom ?FC) = card (From ` set mds)
         \<and> (\<forall>e \<in> set ?top.
               Count e = of_nat (length (filter (\<lambda>m. From m = Email e) mds))
             \<and> Size e = sum_list (map SizeEstimate (filter (\<lambda>m. From m = Email e) mds)))"
  proof (intro allI impI)
    fix L mds total
    assume st: "stats p = (fold (updateStatistics L) mds NewEmailStats)\<lparr>TotalEmails := total\<rparr>"
    then have fc: "?FC = FromCount (fold (updateStatistics L) mds NewEmailStats)"
      and fs: "?FS = FromSize (fold (updateStatistics L) mds NewEmailStats)" by simp_all
    have d: "dom ?FC = From ` set mds"
      unfolding fc by (rule dom_FromCount_fold_updateStatistics)
    have each: "Count e = of_nat (length (filter (\<lambda>m. From m = Email e) mds))
             \<and> Size e = sum_list (map SizeEstimate (filter (\<lambda>m. From m = Email e) mds))"
      if "e \<in> set ?top" for e
    proof -
      from that obtain k where k: "k \<in> set order" "e = ?f k" using mem by blast
      with assms(3) d have kin: "k \<in> From ` set mds" by simp
      have "mapGet ?FC k = of_nat (length (filter (\<lambda>m. From m = k) mds))"
        unfolding fc using kin
        by (simp add: mapGet_def FromCount_fold_updateStatistics NewEmailStats_def)
      moreover have "mapGet ?FS k = sum_list (map SizeEstimate (filter (\<lambda>m. From m = k) mds))"
        unfolding fs using kin
        by (simp add: mapGet_def FromSize_fold_updateStatistics NewEmailStats_def)
      ultimately show ?thesis using k by simp
    qed
    show "card (dom ?FC) = card (From ` set mds)
         \<and> (\<forall>e \<in> set ?top.
               Count e = of_nat (length (filter (\<lambda>m. From m = Email e) mds))
             \<and> Size e = sum_list (map SizeEstimate (filter (\<lambda>m. From m = Email e) mds)))"
      using d each by simp
  qed
  show ?thesis
    by (rule exI[of _ ?top]) (intro conjI; fact)
qed

lemma example_run_stats:
  "stats exampleRun = (fold (updateStatistics exampleLib) exampleRecords NewEmailStats)\<lparr>TotalEmails := 3\<rparr>"
  by (simp add: exampleRun_def)

lemma example_run_senders: "From ` set exampleRecords = {''a@x.org'', ''b@x.org''}"
  by (auto simp: exampleRecords_def exampleRecord_def)

lemma example_run_dom: "set [''a@x.org'', ''b@x.org''] = dom (FromCount (stats exampleRun))"
  by (simp add: example_run_stats dom_FromCount_fold_updateStatistics example_run_senders)

lemma example_run_counts:
  "mapGet (FromCount (stats exampleRun)) ''a@x.org'' = 1"
  "mapGet (FromCount (stats exampleRun)) ''b@x.org'' = 2"
  "mapGet (FromSize (stats exampleRun)) ''a@x.org'' = 5"
  "mapGet (FromSize (stats exampleRun)) ''b@x.org'' = 17"
  by (simp_all add: example_run_stats mapGet_def FromCount_fold_updateStatistics
        FromSize_fold_updateStatistics example_run_senders NewEmailStats_def)
     (simp_all add: exampleRecords_def exampleRecord_def)

theorem GetTopSenders_top_n_witness:
  "GetTopSenders [''a@x.org'', ''b@x.org''] exampleRun 1
     = Inr [\<lparr>Email = ''b@x.org'', Count = 2, Size = 17\<rparr>]
   \<and> (\<exists>top. GetTopSenders [''a@x.org'', ''b@x.org''] exampleRun 1 = Inr top
        \<and> int (length top) = min 1 (int (card (dom (FromCount (stats exampleRun)))))
        \<and> sorted_wrt (\<lambda>x y. sint (Count y) \<le> sint (Count x)) top
        \<and> (\<forall>e \<in> set top. \<forall>k \<in> dom (FromCount (stats exampleRun)) - Email ` set top.
              sint (mapGet (FromCount (stats exampleRun)) k) \<le> sint (Count e))
        \<and> card (dom (FromCount (stats exampleRun))) = card (From ` set exampleRecords)
        \<and> (\<forall>e \<in> set top.
              Count e = of_nat (length (filter (\<lambda>m. From m = Email e) exampleRecords))
            \<and> Size e = sum_list (map SizeEstimate (filter (\<lambda>m. From m = Email e) exampleRecords))))"
proof -
  have n: "(0::int) \<le> 1" by simp
  have d: "distinct [''a@x.org'', ''b@x.org'']" by simp
  have ev: "GetTopSenders [''a@x.org'', ''b@x.org''] exampleRun 1
              = Inr [\<lparr>Email = ''b@x.org'', Count = 2, Size = 17\<rparr>]"
    by (simp add: GetTopSenders_def Let_def example_run_counts sortOuter.simps sortInner.simps)
  from GetTopSenders_top_n[OF n d example_run_dom] example_run_stats
  have "\<exists>top. GetTopSenders [''a@x.org'', ''b@x.org''] exampleRun 1 = Inr top
        \<and> int (length top) = min 1 (int (card (dom (FromCount (stats exampleRun)))))
        \<and> sorted_wrt (\<lambda>x y. sint (Count y) \<le> sint (Count x)) top
        \<and> (\<forall>e \<in> set top. \<forall>k \<in> dom (FromCount (stats exampleRun)) - Email ` set top.
              sint (mapGet (FromCount (stats exampleRun)) k) \<le> sint (Count e))
        \<and> card (dom (FromCount (stats exampleRun))) = card (From ` set exampleRecords)
        \<and> (\<forall>e \<in> set top.
              Count e = of_nat (length (filter (\<lambda>m. From m = Email e) exampleRecords))
            \<and> Size e = sum_list (map SizeEstimate (filter (\<lambda>m. From m = Email e) exampleRecords)))"
    by blast
  with ev show ?thesis by (rule conjI)
qed


end
